theory Spec2Isabelle
  imports Main "HOL-Library.Word"
begin

section \<open>The item tree of libpff: data model\<close>

text \<open>
  Shallow embedding of \<^verbatim>\<open>libpff/libpff_item_tree.c\<close>. Every function returns
  \<open>error + 'a\<close>: \<open>Inl e\<close> is the C return value \<^verbatim>\<open>-1\<close> with \<open>e\<close> the first
  error that was set (libcerror keeps the domain and code of the first
  \<^verbatim>\<open>libcerror_error_set\<close>; the callers only append messages), \<open>Inr\<close> is a
  return value of \<^verbatim>\<open>1\<close> or \<^verbatim>\<open>0\<close>. Memory allocation is assumed to succeed.
\<close>

datatype cursor_operation =
    Get_Root_Node
  | Get_Sub_Node_By_Index
  | Is_Deleted
  | Is_Leaf
  | Get_Node_Value
  | Get_Leaf_Node_By_Identifier

datatype error =
    Invalid_Item_Tree \<comment> \<open>ARGUMENTS / INVALID_VALUE: invalid item tree.\<close>
  | Invalid_Item_Tree_Node \<comment> \<open>ARGUMENTS / INVALID_VALUE: invalid item tree node.\<close>
  | Invalid_Root_Folder_Item_Tree_Node \<comment> \<open>ARGUMENTS / INVALID_VALUE\<close>
  | Invalid_Result_Item_Tree_Node \<comment> \<open>ARGUMENTS / INVALID_VALUE\<close>
  | Invalid_Sub_Node \<comment> \<open>ARGUMENTS / INVALID_VALUE: invalid sub node.\<close>
  | Recursion_Depth_Out_Of_Bounds \<comment> \<open>ARGUMENTS / VALUE_OUT_OF_BOUNDS\<close>
  | Item_Tree_Already_Set \<comment> \<open>RUNTIME / VALUE_ALREADY_SET: invalid item tree value already set.\<close>
  | Root_Node_Already_Set \<comment> \<open>RUNTIME / VALUE_ALREADY_SET: root node already set.\<close>
  | Result_Item_Tree_Node_Already_Set \<comment> \<open>RUNTIME / VALUE_ALREADY_SET\<close>
  | Sub_Node_Already_Set \<comment> \<open>RUNTIME / VALUE_ALREADY_SET: sub node already set.\<close>
  | Root_Folder_Already_Set \<comment> \<open>RUNTIME / VALUE_ALREADY_SET: root folder item tree node already set.\<close>
  | Missing_Item_Descriptor \<comment> \<open>RUNTIME / VALUE_MISSING: missing item descriptor.\<close>
  | Missing_Index_Value \<comment> \<open>RUNTIME / VALUE_MISSING: missing descriptor index tree sub node value.\<close>
  | Missing_Parent_Index_Node \<comment> \<open>RUNTIME / VALUE_MISSING: missing descriptor index tree parent node value.\<close>
  | Identifier_Exceeds_Maximum \<comment> \<open>RUNTIME / VALUE_EXCEEDS_MAXIMUM\<close>
  | Invalid_Parent_Node \<comment> \<open>RUNTIME / VALUE_MISSING: invalid parent node.\<close>
  | Insert_Failed \<comment> \<open>RUNTIME / APPEND_FAILED: unable to insert item descriptor in item tree node.\<close>
  | Append_Failed \<comment> \<open>RUNTIME / APPEND_FAILED: unable to append orphan node in orphan node list.\<close>
  | Cursor_Error cursor_operation \<comment> \<open>set by the descriptor index, outside this file\<close>

record libpff_index_value =
  "identifier" :: "64 word"
  parent_identifier :: "32 word"
  data_identifier :: "64 word"
  local_descriptors_identifier :: "64 word"

record libpff_item_descriptor =
  descriptor_identifier :: "32 word"
  data_identifier :: "64 word"
  local_descriptors_identifier :: "64 word"
  recovered :: "8 word"

text \<open>
  A \<^verbatim>\<open>libcdata_tree_node_t\<close>: its value (a pointer to an item descriptor, \<open>None\<close>
  when \<^verbatim>\<open>NULL\<close>) and its sub nodes. libcdata keeps the sub nodes in a linked
  list with a counter; the list of the model has the counter as its length.
\<close>

datatype tree_node = Tree_Node (node_value: "libpff_item_descriptor option") (sub_nodes: "tree_node list")

text \<open>
  A pointer to a node of a tree is the path from the root of that tree to the node: the
  indices of the sub nodes to descend into.
\<close>

type_synonym tree_path = "nat list"

record libpff_item_tree =
  root_node :: "tree_node option"

text \<open>
  Modelled from the spec: \<^verbatim>\<open>LIBPFF_MAXIMUM_ITEM_TREE_RECURSION_DEPTH\<close> is a macro of
  \<^verbatim>\<open>libpff_definitions.h\<close>, not of \<^verbatim>\<open>libpff_item_tree.c\<close>; the specification fixes
  the recursion bound at 256.
\<close>

definition LIBPFF_MAXIMUM_ITEM_TREE_RECURSION_DEPTH :: int where
  "LIBPFF_MAXIMUM_ITEM_TREE_RECURSION_DEPTH = 256"

text \<open>
  Modelled from the spec: \<^verbatim>\<open>libpff_item_descriptor_initialize\<close> lives in
  \<^verbatim>\<open>libpff_item_descriptor.c\<close>; it builds the plain value carrying the identifier
  triple and the recovered flag.
\<close>

definition libpff_item_descriptor_initialize ::
  "32 word \<Rightarrow> 64 word \<Rightarrow> 64 word \<Rightarrow> 8 word \<Rightarrow> libpff_item_descriptor" where
  "libpff_item_descriptor_initialize descriptor_id data_id local_descriptors_id recovered_flag =
     \<lparr>descriptor_identifier = descriptor_id,
      data_identifier = data_id,
      local_descriptors_identifier = local_descriptors_id,
      recovered = recovered_flag\<rparr>"

section \<open>Navigation\<close>

definition libpff_item_tree_initialize :: "libpff_item_tree option option \<Rightarrow> error + libpff_item_tree" where
  "libpff_item_tree_initialize item_tree =
     (case item_tree of
        None \<Rightarrow> Inl Invalid_Item_Tree
      | Some (Some _) \<Rightarrow> Inl Item_Tree_Already_Set
      | Some None \<Rightarrow> Inr \<lparr>root_node = None\<rparr>)"

text \<open>
  \<^verbatim>\<open>libpff_item_tree_get_tree_node_by_identifier\<close>. The result parameter
  \<^verbatim>\<open>result_item_tree_node\<close> is \<open>None\<close> for a \<^verbatim>\<open>NULL\<close> pointer, \<open>Some None\<close> for a
  pointer to an unset slot and \<open>Some (Some p)\<close> for a slot that is already set. The
  function returns \<open>Inr (Some p)\<close> for the C value 1, where \<open>p\<close> is what it stored in the
  slot, and \<open>Inr None\<close> for the C value 0; the slot is written only on 1. The second
  function is the \<^verbatim>\<open>for\<close> loop over the sub nodes, from the sub node with index \<open>i\<close> on.
\<close>

fun libpff_item_tree_get_tree_node_by_identifier ::
      "tree_node option \<Rightarrow> 32 word \<Rightarrow> tree_path option option \<Rightarrow> int \<Rightarrow> error + tree_path option"
  and get_tree_node_by_identifier_sub_nodes ::
      "tree_node list \<Rightarrow> nat \<Rightarrow> 32 word \<Rightarrow> tree_path option option \<Rightarrow> int \<Rightarrow> error + tree_path option"
where
  "libpff_item_tree_get_tree_node_by_identifier None item_identifier result_item_tree_node recursion_depth =
     Inl Invalid_Item_Tree_Node"
| "libpff_item_tree_get_tree_node_by_identifier (Some (Tree_Node item_descriptor subs))
       item_identifier result_item_tree_node recursion_depth =
     (if recursion_depth < 0 \<or> recursion_depth > LIBPFF_MAXIMUM_ITEM_TREE_RECURSION_DEPTH
      then Inl Recursion_Depth_Out_Of_Bounds
      else case item_descriptor of
        None \<Rightarrow> Inl Missing_Item_Descriptor
      | Some d \<Rightarrow>
          if descriptor_identifier d = item_identifier
          then (case result_item_tree_node of
                  None \<Rightarrow> Inl Invalid_Result_Item_Tree_Node
                | Some (Some _) \<Rightarrow> Inl Result_Item_Tree_Node_Already_Set
                | Some None \<Rightarrow> Inr (Some []))
          else get_tree_node_by_identifier_sub_nodes subs 0 item_identifier
                 result_item_tree_node recursion_depth)"
| "get_tree_node_by_identifier_sub_nodes [] i item_identifier result_item_tree_node recursion_depth =
     Inr None"
| "get_tree_node_by_identifier_sub_nodes (sub_tree_node # rest) i item_identifier
       result_item_tree_node recursion_depth =
     (case libpff_item_tree_get_tree_node_by_identifier (Some sub_tree_node) item_identifier
             result_item_tree_node (recursion_depth + 1) of
        Inl e \<Rightarrow> Inl e
      | Inr (Some p) \<Rightarrow> Inr (Some (i # p))
      | Inr None \<Rightarrow> get_tree_node_by_identifier_sub_nodes rest (i + 1) item_identifier
                     result_item_tree_node recursion_depth)"

text \<open>
  \<^verbatim>\<open>libpff_item_tree_get_sub_node_by_identifier\<close>: the scan of the immediate sub
  nodes; \<open>Inr (Some i)\<close> is the C value 1 with the sub node of index \<open>i\<close> stored.
\<close>

fun get_sub_node_by_identifier_scan :: "tree_node list \<Rightarrow> nat \<Rightarrow> 32 word \<Rightarrow> error + nat option" where
  "get_sub_node_by_identifier_scan [] i sub_node_identifier = Inr None"
| "get_sub_node_by_identifier_scan (sub_tree_node # rest) i sub_node_identifier =
     (case node_value sub_tree_node of
        None \<Rightarrow> Inl Missing_Item_Descriptor
      | Some d \<Rightarrow>
          if descriptor_identifier d = sub_node_identifier then Inr (Some i)
          else get_sub_node_by_identifier_scan rest (i + 1) sub_node_identifier)"

definition libpff_item_tree_get_sub_node_by_identifier ::
  "tree_node option \<Rightarrow> 32 word \<Rightarrow> nat option option \<Rightarrow> error + nat option" where
  "libpff_item_tree_get_sub_node_by_identifier item_tree_node sub_node_identifier sub_node =
     (case item_tree_node of
        None \<Rightarrow> Inl Invalid_Item_Tree_Node
      | Some n \<Rightarrow>
          (case sub_node of
             None \<Rightarrow> Inl Invalid_Sub_Node
           | Some (Some _) \<Rightarrow> Inl Sub_Node_Already_Set
           | Some None \<Rightarrow>
               (case node_value n of
                  None \<Rightarrow> Inl Missing_Item_Descriptor
                | Some _ \<Rightarrow> get_sub_node_by_identifier_scan (sub_nodes n) 0 sub_node_identifier)))"

definition libpff_item_tree_get_node_by_identifier ::
  "libpff_item_tree option \<Rightarrow> 32 word \<Rightarrow> tree_path option option \<Rightarrow> error + tree_path option" where
  "libpff_item_tree_get_node_by_identifier item_tree item_identifier item_tree_node =
     (case item_tree of
        None \<Rightarrow> Inl Invalid_Item_Tree
      | Some t \<Rightarrow> libpff_item_tree_get_tree_node_by_identifier (root_node t) item_identifier
                   item_tree_node 0)"

section \<open>The collaborators of the builder\<close>

text \<open>
  The descriptor index (a libfdata tree behind a cache, and \<^verbatim>\<open>libpff_index_tree.c\<close>)
  is implemented outside \<^verbatim>\<open>libpff_item_tree.c\<close>. The builder only consumes the answers of
  seven calls, so the index is a parameter of the model: the record of these answers, with
  \<open>None\<close> for a call that fails. An index node is a handle. The answers do not change
  during a build. There is no assumption that the sub node relation is well founded, nor
  on what the lookup by identifier returns.
\<close>

type_synonym index_node = nat

datatype leaf_lookup =
    Lookup_Error \<comment> \<open>the C value -1\<close>
  | Lookup_Not_Found \<comment> \<open>the C value 0\<close>
  | Lookup_Found "index_node option" \<comment> \<open>the C value 1 and the node stored, \<open>None\<close> for \<^verbatim>\<open>NULL\<close>\<close>

record libpff_descriptors_index =
  libpff_index_tree_get_root_node :: "index_node option"
  libfdata_tree_node_get_number_of_sub_nodes :: "index_node \<Rightarrow> int option"
  libfdata_tree_node_is_deleted :: "index_node \<Rightarrow> bool option"
  libfdata_tree_node_is_leaf :: "index_node \<Rightarrow> bool option"
  libfdata_tree_node_get_sub_node_by_index :: "index_node \<Rightarrow> int \<Rightarrow> index_node option"
  libfdata_tree_node_get_node_value :: "index_node \<Rightarrow> libpff_index_value option option"
  libpff_index_tree_get_leaf_node_by_identifier :: "32 word \<Rightarrow> leaf_lookup"

text \<open>
  Modelled from the spec: \<^verbatim>\<open>libpff_item_descriptor_compare\<close> lives in
  \<^verbatim>\<open>libpff_item_descriptor.c\<close>. The specification gives it as the sign of the
  difference of the two descriptor identifiers.
\<close>

datatype compare_result = LIBCDATA_COMPARE_LESS | LIBCDATA_COMPARE_EQUAL | LIBCDATA_COMPARE_GREATER

definition libpff_item_descriptor_compare ::
  "libpff_item_descriptor \<Rightarrow> libpff_item_descriptor \<Rightarrow> compare_result" where
  "libpff_item_descriptor_compare first_item_descriptor second_item_descriptor =
     (if descriptor_identifier first_item_descriptor < descriptor_identifier second_item_descriptor
      then LIBCDATA_COMPARE_LESS
      else if descriptor_identifier first_item_descriptor > descriptor_identifier second_item_descriptor
      then LIBCDATA_COMPARE_GREATER
      else LIBCDATA_COMPARE_EQUAL)"

text \<open>
  Modelled from the spec: \<^verbatim>\<open>libcdata_tree_node_insert_node\<close> and
  \<^verbatim>\<open>libcdata_tree_node_insert_value\<close> belong to libcdata. Called with the compare
  function above and \<^verbatim>\<open>LIBCDATA_INSERT_FLAG_UNIQUE_ENTRIES\<close>, they are the
  sorted-unique insertion of the specification: the sub nodes are scanned from the
  first one; the new node goes before the first sub node that compares greater, is
  rejected (the C value 0, here \<open>Inr None\<close>) at a sub node that compares equal, and goes
  to the end otherwise. A node without a value cannot be compared, which is an error.
\<close>

fun insert_sub_node :: "tree_node list \<Rightarrow> tree_node \<Rightarrow> error + tree_node list option" where
  "insert_sub_node [] node = Inr (Some [node])"
| "insert_sub_node (sub_node # rest) node =
     (case node_value node of
        None \<Rightarrow> Inl Insert_Failed
      | Some value_to_insert \<Rightarrow>
          (case node_value sub_node of
             None \<Rightarrow> Inl Insert_Failed
           | Some sub_node_value \<Rightarrow>
               (case libpff_item_descriptor_compare value_to_insert sub_node_value of
                  LIBCDATA_COMPARE_EQUAL \<Rightarrow> Inr None
                | LIBCDATA_COMPARE_LESS \<Rightarrow> Inr (Some (node # sub_node # rest))
                | LIBCDATA_COMPARE_GREATER \<Rightarrow>
                    (case insert_sub_node rest node of
                       Inl e \<Rightarrow> Inl e
                     | Inr None \<Rightarrow> Inr None
                     | Inr (Some rest') \<Rightarrow> Inr (Some (sub_node # rest'))))))"

definition libcdata_tree_node_insert_node :: "tree_node \<Rightarrow> tree_node \<Rightarrow> error + tree_node option" where
  "libcdata_tree_node_insert_node parent_node node =
     (case insert_sub_node (sub_nodes parent_node) node of
        Inl e \<Rightarrow> Inl e
      | Inr None \<Rightarrow> Inr None
      | Inr (Some subs) \<Rightarrow> Inr (Some (Tree_Node (node_value parent_node) subs)))"

definition libcdata_tree_node_insert_value ::
  "tree_node \<Rightarrow> libpff_item_descriptor \<Rightarrow> error + tree_node option" where
  "libcdata_tree_node_insert_value parent_node item_descriptor =
     libcdata_tree_node_insert_node parent_node (Tree_Node (Some item_descriptor) [])"

text \<open>Reading and writing the node a pointer designates.\<close>

fun tree_node_at :: "tree_node \<Rightarrow> tree_path \<Rightarrow> tree_node option" where
  "tree_node_at node [] = Some node"
| "tree_node_at node (i # p) =
     (if i < length (sub_nodes node) then tree_node_at (sub_nodes node ! i) p else None)"

fun tree_node_replace :: "tree_node \<Rightarrow> tree_path \<Rightarrow> tree_node \<Rightarrow> tree_node" where
  "tree_node_replace node [] new_node = new_node"
| "tree_node_replace node (i # p) new_node =
     (if i < length (sub_nodes node)
      then Tree_Node (node_value node)
             ((sub_nodes node)[i := tree_node_replace (sub_nodes node ! i) p new_node])
      else node)"

section \<open>The builder\<close>

text \<open>
  What a build reads and writes: the item tree, the orphan node list and the slot
  \<^verbatim>\<open>*root_folder_item_tree_node\<close>. A field is \<open>None\<close> when the caller passed
  \<^verbatim>\<open>NULL\<close> for the pointer. The root folder slot holds a pointer to a sub node of
  the root node of the item tree (or \<^verbatim>\<open>NULL\<close>, here \<open>Some None\<close>); the model keeps
  the descriptor identifier of that sub node, which designates it because the sub nodes
  of a node carry distinct identifiers.
\<close>

record build_state =
  item_tree :: "libpff_item_tree option"
  orphan_node_list :: "tree_node list option"
  root_folder_item_tree_node :: "32 word option option"

definition item_tree_root_node :: "build_state \<Rightarrow> tree_node option" where
  "item_tree_root_node st = (case item_tree st of None \<Rightarrow> None | Some t \<Rightarrow> root_node t)"

definition set_item_tree_root_node :: "build_state \<Rightarrow> tree_node \<Rightarrow> build_state" where
  "set_item_tree_root_node st node = st\<lparr>item_tree := Some \<lparr>root_node = Some node\<rparr>\<rparr>"

text \<open>
  The three ways \<^verbatim>\<open>libpff_item_tree_create_leaf_node\<close> ends, each without
  recursion. First the root folder branch (\<^verbatim>\<open>identifier == parent_identifier\<close>), with
  \<open>root_folder\<close> the content of the slot: a node that could not be inserted is freed,
  which resets the slot to \<^verbatim>\<open>NULL\<close>, and the return value is still 1 when the
  insertion answered 0.
\<close>

definition create_leaf_node_root_folder ::
  "build_state \<Rightarrow> 32 word option \<Rightarrow> libpff_item_descriptor \<Rightarrow> error + build_state" where
  "create_leaf_node_root_folder st root_folder item_descriptor =
     (case root_folder of
        Some _ \<Rightarrow> Inl Root_Folder_Already_Set
      | None \<Rightarrow>
          (case item_tree_root_node st of
             None \<Rightarrow> Inl Insert_Failed
           | Some root \<Rightarrow>
               (case libcdata_tree_node_insert_node root (Tree_Node (Some item_descriptor) []) of
                  Inl e \<Rightarrow> Inl Insert_Failed
                | Inr None \<Rightarrow> Inr (st\<lparr>root_folder_item_tree_node := Some None\<rparr>)
                | Inr (Some root') \<Rightarrow>
                    Inr ((set_item_tree_root_node st root')
                           \<lparr>root_folder_item_tree_node :=
                              Some (Some (descriptor_identifier item_descriptor))\<rparr>))))"

text \<open>The parent was not found: the descriptor becomes a node of the orphan node list.\<close>

definition create_leaf_node_orphan ::
  "build_state \<Rightarrow> libpff_item_descriptor \<Rightarrow> error + build_state" where
  "create_leaf_node_orphan st item_descriptor =
     (case orphan_node_list st of
        None \<Rightarrow> Inl Append_Failed
      | Some orphans \<Rightarrow>
          Inr (st\<lparr>orphan_node_list := Some (orphans @ [Tree_Node (Some item_descriptor) []])\<rparr>))"

text \<open>
  The parent was found, \<open>parent_node\<close> points to it: the descriptor is inserted as a
  value under it; a descriptor that was not inserted is freed, and the return value is
  still 1 when the insertion answered 0.
\<close>

definition create_leaf_node_insert ::
  "build_state \<Rightarrow> tree_path \<Rightarrow> libpff_item_descriptor \<Rightarrow> error + build_state" where
  "create_leaf_node_insert st parent_node item_descriptor =
     (case item_tree_root_node st of
        None \<Rightarrow> Inl Invalid_Parent_Node
      | Some root \<Rightarrow>
          (case tree_node_at root parent_node of
             None \<Rightarrow> Inl Invalid_Parent_Node
           | Some parent \<Rightarrow>
               (case libcdata_tree_node_insert_value parent item_descriptor of
                  Inl e \<Rightarrow> Inl Insert_Failed
                | Inr None \<Rightarrow> Inr st
                | Inr (Some parent') \<Rightarrow>
                    Inr (set_item_tree_root_node st (tree_node_replace root parent_node parent')))))"

text \<open>
  The measure of the recursion of the builder below. Every call that descends adds one
  to the recursion depth, and a call outside the bound returns at once: the remaining
  depth decreases along the recursion, and inside the loop the number of sub nodes
  still to visit.
\<close>

definition remaining_depth :: "int \<Rightarrow> nat" where
  "remaining_depth recursion_depth =
     nat (LIBPFF_MAXIMUM_ITEM_TREE_RECURSION_DEPTH + 1 - recursion_depth)"

definition create_node_measure ::
  "(libpff_descriptors_index \<times> index_node \<times> int \<times> build_state)
   + (libpff_descriptors_index \<times> index_node \<times> int \<times> build_state)
   + (libpff_descriptors_index \<times> index_node \<times> int \<times> int \<times> int \<times> build_state)
   \<Rightarrow> nat \<times> nat" where
  "create_node_measure call =
     (case call of
        Inl (_, _, d, _) \<Rightarrow>
          (if d < 0 \<or> d > LIBPFF_MAXIMUM_ITEM_TREE_RECURSION_DEPTH then 0
           else 3 * remaining_depth d + 2, 0)
      | Inr (Inl (_, _, d, _)) \<Rightarrow> (3 * remaining_depth d + 1, 0)
      | Inr (Inr (_, _, i, n, d, _)) \<Rightarrow> (3 * remaining_depth d + 1, nat (n - i)))"

text \<open>
  \<^verbatim>\<open>libpff_item_tree_create_node\<close>, \<^verbatim>\<open>libpff_item_tree_create_leaf_node\<close> and the
  \<^verbatim>\<open>for\<close> loop of the former over the sub nodes of an index node, from
  \<open>sub_node_index\<close> on. What the \<^verbatim>\<open>on_error\<close> labels free is not modelled: an error
  is returned without a state.
\<close>

function libpff_item_tree_create_node ::
      "libpff_descriptors_index \<Rightarrow> index_node \<Rightarrow> int \<Rightarrow> build_state \<Rightarrow> error + build_state"
  and libpff_item_tree_create_leaf_node ::
      "libpff_descriptors_index \<Rightarrow> index_node \<Rightarrow> int \<Rightarrow> build_state \<Rightarrow> error + build_state"
  and create_node_sub_nodes ::
      "libpff_descriptors_index \<Rightarrow> index_node \<Rightarrow> int \<Rightarrow> int \<Rightarrow> int \<Rightarrow> build_state \<Rightarrow> error + build_state"
where
  "libpff_item_tree_create_node descriptors_index descriptor_index_tree_node recursion_depth st =
     (case item_tree st of
        None \<Rightarrow> Inl Invalid_Item_Tree
      | Some _ \<Rightarrow>
     (case root_folder_item_tree_node st of
        None \<Rightarrow> Inl Invalid_Root_Folder_Item_Tree_Node
      | Some _ \<Rightarrow>
     if recursion_depth < 0 \<or> recursion_depth > LIBPFF_MAXIMUM_ITEM_TREE_RECURSION_DEPTH
     then Inl Recursion_Depth_Out_Of_Bounds
     else
     (case libfdata_tree_node_get_number_of_sub_nodes descriptors_index descriptor_index_tree_node of
        None \<Rightarrow> Inr st
      | Some number_of_sub_nodes \<Rightarrow>
     (case libfdata_tree_node_is_deleted descriptors_index descriptor_index_tree_node of
        None \<Rightarrow> Inl (Cursor_Error Is_Deleted)
      | Some True \<Rightarrow> Inr st
      | Some False \<Rightarrow>
     (case libfdata_tree_node_is_leaf descriptors_index descriptor_index_tree_node of
        None \<Rightarrow> Inl (Cursor_Error Is_Leaf)
      | Some True \<Rightarrow>
          libpff_item_tree_create_leaf_node descriptors_index descriptor_index_tree_node
            recursion_depth st
      | Some False \<Rightarrow>
          create_node_sub_nodes descriptors_index descriptor_index_tree_node 0
            number_of_sub_nodes recursion_depth st)))))"
| "libpff_item_tree_create_leaf_node descriptors_index descriptor_index_tree_node recursion_depth st =
     (case item_tree st of
        None \<Rightarrow> Inl Invalid_Item_Tree
      | Some _ \<Rightarrow>
     (case root_folder_item_tree_node st of
        None \<Rightarrow> Inl Invalid_Root_Folder_Item_Tree_Node
      | Some root_folder \<Rightarrow>
     if recursion_depth < 0 \<or> recursion_depth > LIBPFF_MAXIMUM_ITEM_TREE_RECURSION_DEPTH
     then Inl Recursion_Depth_Out_Of_Bounds
     else
     (case libfdata_tree_node_get_node_value descriptors_index descriptor_index_tree_node of
        None \<Rightarrow> Inl (Cursor_Error Get_Node_Value)
      | Some None \<Rightarrow> Inl Missing_Index_Value
      | Some (Some descriptor_index_value) \<Rightarrow>
     if identifier descriptor_index_value > 0xFFFFFFFF
     then Inl Identifier_Exceeds_Maximum
     else
       let item_descriptor = libpff_item_descriptor_initialize
             (ucast (identifier descriptor_index_value))
             (libpff_index_value.data_identifier descriptor_index_value)
             (libpff_index_value.local_descriptors_identifier descriptor_index_value) 0;
           parent_id = parent_identifier descriptor_index_value
       in
       if (ucast (identifier descriptor_index_value) :: 32 word) = parent_id
       then create_leaf_node_root_folder st root_folder item_descriptor
       else
         (case libpff_item_tree_get_tree_node_by_identifier (item_tree_root_node st)
                 parent_id (Some None) 0 of
            Inl e \<Rightarrow> Inl e
          | Inr (Some parent_node) \<Rightarrow> create_leaf_node_insert st parent_node item_descriptor
          | Inr None \<Rightarrow>
              (case libpff_index_tree_get_leaf_node_by_identifier descriptors_index parent_id of
                 Lookup_Error \<Rightarrow> Inl (Cursor_Error Get_Leaf_Node_By_Identifier)
               | Lookup_Not_Found \<Rightarrow> create_leaf_node_orphan st item_descriptor
               | Lookup_Found None \<Rightarrow> Inl Missing_Parent_Index_Node
               | Lookup_Found (Some descriptor_index_tree_parent_node) \<Rightarrow>
                   (case libpff_item_tree_create_node descriptors_index
                           descriptor_index_tree_parent_node (recursion_depth + 1) st of
                      Inl e \<Rightarrow> Inl e
                    | Inr st' \<Rightarrow>
                        (case libpff_item_tree_get_tree_node_by_identifier
                                (item_tree_root_node st') parent_id (Some None) 0 of
                           Inl e \<Rightarrow> Inl e
                         | Inr None \<Rightarrow> create_leaf_node_orphan st' item_descriptor
                         | Inr (Some parent_node) \<Rightarrow>
                             create_leaf_node_insert st' parent_node item_descriptor)))))))"
| "create_node_sub_nodes descriptors_index descriptor_index_tree_node sub_node_index
       number_of_sub_nodes recursion_depth st =
     (if sub_node_index < number_of_sub_nodes
      then (case libfdata_tree_node_get_sub_node_by_index descriptors_index
                   descriptor_index_tree_node sub_node_index of
              None \<Rightarrow> Inl (Cursor_Error Get_Sub_Node_By_Index)
            | Some descriptor_index_tree_sub_node \<Rightarrow>
                (case libpff_item_tree_create_node descriptors_index
                        descriptor_index_tree_sub_node (recursion_depth + 1) st of
                   Inl e \<Rightarrow> Inl e
                 | Inr st' \<Rightarrow>
                     create_node_sub_nodes descriptors_index descriptor_index_tree_node
                       (sub_node_index + 1) number_of_sub_nodes recursion_depth st'))
      else Inr st)"
  by pat_completeness auto

termination
  by (relation "inv_image (less_than <*lex*> less_than) create_node_measure")
     (auto simp: create_node_measure_def remaining_depth_def
                 LIBPFF_MAXIMUM_ITEM_TREE_RECURSION_DEPTH_def)

text \<open>\<^verbatim>\<open>libpff_item_tree_create\<close>: the synthetic root node, then the walk from the root of the index.\<close>

definition libpff_item_tree_create ::
  "libpff_item_tree option \<Rightarrow> libpff_descriptors_index \<Rightarrow> tree_node list option
   \<Rightarrow> 32 word option option \<Rightarrow> error + build_state" where
  "libpff_item_tree_create tree descriptors_index orphans root_folder =
     (case tree of
        None \<Rightarrow> Inl Invalid_Item_Tree
      | Some t \<Rightarrow>
          (case root_node t of
             Some _ \<Rightarrow> Inl Root_Node_Already_Set
           | None \<Rightarrow>
               (case libpff_index_tree_get_root_node descriptors_index of
                  None \<Rightarrow> Inl (Cursor_Error Get_Root_Node)
                | Some descriptor_index_tree_root_node \<Rightarrow>
                    libpff_item_tree_create_node descriptors_index
                      descriptor_index_tree_root_node 0
                      \<lparr>item_tree = Some \<lparr>root_node = Some (Tree_Node
                           (Some (libpff_item_descriptor_initialize 0 0 0 0)) [])\<rparr>,
                       orphan_node_list = orphans,
                       root_folder_item_tree_node = root_folder\<rparr>)))"

declare libpff_item_tree_create_node.simps [simp del]
declare libpff_item_tree_create_leaf_node.simps [simp del]
declare create_node_sub_nodes.simps [simp del]

section \<open>Descriptor indexes to run the builder on\<close>

text \<open>
  Modelled from the spec: the cursor mock of the end-to-end scenarios, which give the
  index as a list of leaves. Node 0 is the root of the index, a branch with one sub
  node per leaf; node \<open>i + 1\<close> is the leaf of index \<open>i\<close>; every other node cannot be
  read. The lookup by identifier answers the first leaf with that identifier.
\<close>

fun leaf_lookup_in :: "libpff_index_value list \<Rightarrow> nat \<Rightarrow> 32 word \<Rightarrow> leaf_lookup" where
  "leaf_lookup_in [] i ident = Lookup_Not_Found"
| "leaf_lookup_in (v # vs) i ident =
     (if identifier v = ucast ident then Lookup_Found (Some i)
      else leaf_lookup_in vs (i + 1) ident)"

definition flat_index :: "libpff_index_value list \<Rightarrow> libpff_descriptors_index" where
  "flat_index leaves =
     \<lparr>libpff_index_tree_get_root_node = Some 0,
      libfdata_tree_node_get_number_of_sub_nodes =
        (\<lambda>node. if node = 0 then Some (int (length leaves))
                 else if node \<le> length leaves then Some 0 else None),
      libfdata_tree_node_is_deleted =
        (\<lambda>node. if node \<le> length leaves then Some False else None),
      libfdata_tree_node_is_leaf =
        (\<lambda>node. if node = 0 then Some False
                 else if node \<le> length leaves then Some True else None),
      libfdata_tree_node_get_sub_node_by_index =
        (\<lambda>node i. if node = 0 \<and> 0 \<le> i \<and> i < int (length leaves)
                   then Some (nat i + 1) else None),
      libfdata_tree_node_get_node_value =
        (\<lambda>node. if 0 < node \<and> node \<le> length leaves
                 then Some (Some (leaves ! (node - 1))) else None),
      libpff_index_tree_get_leaf_node_by_identifier = leaf_lookup_in leaves 1\<rparr>"

definition leaf :: "64 word \<Rightarrow> 32 word \<Rightarrow> libpff_index_value" where
  "leaf ident parent =
     \<lparr>identifier = ident, parent_identifier = parent,
      data_identifier = 0, local_descriptors_identifier = 0\<rparr>"

text \<open>A build on a tree that was just created, with an empty orphan node list and an unset root folder slot.\<close>

definition build :: "libpff_descriptors_index \<Rightarrow> error + build_state" where
  "build descriptors_index =
     libpff_item_tree_create (Some \<lparr>root_node = None\<rparr>) descriptors_index (Some []) (Some None)"

text \<open>The root node \<^verbatim>\<open>libpff_item_tree_create\<close> makes, and a node for an identifier with given sub nodes.\<close>

definition synthetic_root :: tree_node where
  "synthetic_root = Tree_Node (Some (libpff_item_descriptor_initialize 0 0 0 0)) []"

definition item_node :: "32 word \<Rightarrow> tree_node list \<Rightarrow> tree_node" where
  "item_node ident subs = Tree_Node (Some (libpff_item_descriptor_initialize ident 0 0 0)) subs"

text \<open>An index whose calls fail where the functions given say so, and answer as \<open>idx\<close> elsewhere.\<close>

definition failing_index ::
  "libpff_descriptors_index \<Rightarrow> (index_node \<Rightarrow> bool) \<Rightarrow> (index_node \<Rightarrow> bool)
   \<Rightarrow> (index_node \<Rightarrow> bool) \<Rightarrow> (index_node \<Rightarrow> bool) \<Rightarrow> libpff_descriptors_index" where
  "failing_index idx unreadable deleted_fails leaf_fails value_fails =
     idx\<lparr>libfdata_tree_node_get_number_of_sub_nodes :=
           (\<lambda>node. if unreadable node then None
                    else libfdata_tree_node_get_number_of_sub_nodes idx node),
         libfdata_tree_node_is_deleted :=
           (\<lambda>node. if deleted_fails node then None
                    else libfdata_tree_node_is_deleted idx node),
         libfdata_tree_node_is_leaf :=
           (\<lambda>node. if leaf_fails node then None
                    else libfdata_tree_node_is_leaf idx node),
         libfdata_tree_node_get_node_value :=
           (\<lambda>node. if value_fails node then None
                    else libfdata_tree_node_get_node_value idx node)\<rparr>"

section \<open>Predicates of the statements\<close>

text \<open>The sub nodes of a node all carry a value, with strictly ascending descriptor identifiers.\<close>

definition identifier_less :: "tree_node \<Rightarrow> tree_node \<Rightarrow> bool" where
  "identifier_less a b =
     (case node_value a of
        None \<Rightarrow> False
      | Some x \<Rightarrow> (case node_value b of
                     None \<Rightarrow> False
                   | Some y \<Rightarrow> descriptor_identifier x < descriptor_identifier y))"

definition has_value :: "tree_node \<Rightarrow> bool" where
  "has_value n = (case node_value n of None \<Rightarrow> False | Some _ \<Rightarrow> True)"

definition sub_nodes_ascending :: "tree_node list \<Rightarrow> bool" where
  "sub_nodes_ascending subs = (list_all has_value subs \<and> sorted_wrt identifier_less subs)"

fun tree_sorted :: "tree_node \<Rightarrow> bool" where
  "tree_sorted (Tree_Node v subs) = (sub_nodes_ascending subs \<and> (\<forall>n \<in> set subs. tree_sorted n))"

definition has_identifier :: "tree_node \<Rightarrow> 32 word \<Rightarrow> bool" where
  "has_identifier n ident =
     (case node_value n of None \<Rightarrow> False | Some d \<Rightarrow> descriptor_identifier d = ident)"

text \<open>The item descriptor \<^verbatim>\<open>libpff_item_tree_create_leaf_node\<close> creates for an index value.\<close>

definition item_descriptor_of :: "libpff_index_value \<Rightarrow> libpff_item_descriptor" where
  "item_descriptor_of index_value =
     libpff_item_descriptor_initialize (ucast (identifier index_value))
       (libpff_index_value.data_identifier index_value)
       (libpff_index_value.local_descriptors_identifier index_value) 0"

text \<open>The root folder test of \<^verbatim>\<open>libpff_item_tree_create_leaf_node\<close>: \<^verbatim>\<open>identifier == parent_identifier\<close>.\<close>

definition self_parented :: "libpff_index_value \<Rightarrow> bool" where
  "self_parented index_value =
     ((ucast (identifier index_value) :: 32 word) = parent_identifier index_value)"

text \<open>
  One leaf processed to its end: the state before and after one of the three endings of
  \<^verbatim>\<open>libpff_item_tree_create_leaf_node\<close>, for the value of a leaf of the index.
\<close>

inductive leaf_step :: "libpff_descriptors_index \<Rightarrow> build_state \<Rightarrow> build_state \<Rightarrow> bool"
  for idx :: libpff_descriptors_index
where
  step_root_folder:
    "libfdata_tree_node_get_node_value idx node = Some (Some v) \<Longrightarrow>
     identifier v \<le> 0xFFFFFFFF \<Longrightarrow> self_parented v \<Longrightarrow>
     root_folder_item_tree_node st = Some root_folder \<Longrightarrow>
     create_leaf_node_root_folder st root_folder (item_descriptor_of v) = Inr st' \<Longrightarrow>
     leaf_step idx st st'"
| step_orphan:
    "libfdata_tree_node_get_node_value idx node = Some (Some v) \<Longrightarrow>
     identifier v \<le> 0xFFFFFFFF \<Longrightarrow> \<not> self_parented v \<Longrightarrow>
     libpff_item_tree_get_tree_node_by_identifier (item_tree_root_node st)
       (parent_identifier v) (Some None) 0 = Inr None \<Longrightarrow>
     create_leaf_node_orphan st (item_descriptor_of v) = Inr st' \<Longrightarrow>
     leaf_step idx st st'"
| step_insert:
    "libfdata_tree_node_get_node_value idx node = Some (Some v) \<Longrightarrow>
     identifier v \<le> 0xFFFFFFFF \<Longrightarrow> \<not> self_parented v \<Longrightarrow>
     libpff_item_tree_get_tree_node_by_identifier (item_tree_root_node st)
       (parent_identifier v) (Some None) 0 = Inr (Some parent_node) \<Longrightarrow>
     create_leaf_node_insert st parent_node (item_descriptor_of v) = Inr st' \<Longrightarrow>
     leaf_step idx st st'"

code_pred leaf_step .

text \<open>The item tree of the state has a root node with identifier 0, and every node of it has ascending sub nodes.\<close>

definition tree_invariant :: "build_state \<Rightarrow> bool" where
  "tree_invariant st =
     (case item_tree_root_node st of
        None \<Rightarrow> False
      | Some root \<Rightarrow> has_identifier root 0 \<and> tree_sorted root)"

text \<open>
  Modelled from the spec: a cursor mock with a branch below the root of the index. Node
  0 is the root with the sub nodes 1, 2 and 3; node 3 is a branch with the leaves 4 and
  5. The lookup of identifier 3 answers the branch.
\<close>

definition nested_index :: libpff_descriptors_index where
  "nested_index =
     \<lparr>libpff_index_tree_get_root_node = Some 0,
      libfdata_tree_node_get_number_of_sub_nodes =
        (\<lambda>node. if node = 0 then Some 3 else if node = 3 then Some 2
                 else if node \<le> 5 then Some 0 else None),
      libfdata_tree_node_is_deleted = (\<lambda>node. if node \<le> 5 then Some False else None),
      libfdata_tree_node_is_leaf =
        (\<lambda>node. if node = 0 \<or> node = 3 then Some False
                 else if node \<le> 5 then Some True else None),
      libfdata_tree_node_get_sub_node_by_index =
        (\<lambda>node i. if node = 0 \<and> 0 \<le> i \<and> i < 3 then Some (nat i + 1)
                   else if node = 3 \<and> 0 \<le> i \<and> i < 2 then Some (nat i + 4) else None),
      libfdata_tree_node_get_node_value =
        (\<lambda>node. if node = 1 then Some (Some (leaf 1 1))
                 else if node = 2 \<or> node = 5 then Some (Some (leaf 5 3))
                 else if node = 4 then Some (Some (leaf 3 1)) else None),
      libpff_index_tree_get_leaf_node_by_identifier =
        (\<lambda>ident. if ident = 3 then Lookup_Found (Some 3) else Lookup_Not_Found)\<rparr>"

text \<open>The state of a build: the sub nodes of the synthetic root, the orphans and the root folder slot.\<close>

definition built_state :: "tree_node list \<Rightarrow> tree_node list \<Rightarrow> 32 word option \<Rightarrow> build_state" where
  "built_state subs orphans root_folder =
     \<lparr>item_tree = Some \<lparr>root_node = Some (item_node 0 subs)\<rparr>,
      orphan_node_list = Some orphans, root_folder_item_tree_node = Some root_folder\<rparr>"

text \<open>
  The nodes of a tree in pre-order, each with the path from the root that leads to it:
  a node before its sub nodes, the sub nodes from the first to the last.
\<close>

fun preorder :: "tree_node \<Rightarrow> (tree_path \<times> tree_node) list"
  and preorder_sub_nodes :: "tree_node list \<Rightarrow> nat \<Rightarrow> (tree_path \<times> tree_node) list"
where
  "preorder (Tree_Node v subs) = ([], Tree_Node v subs) # preorder_sub_nodes subs 0"
| "preorder_sub_nodes [] i = []"
| "preorder_sub_nodes (n # rest) i =
     map (\<lambda>entry. (i # fst entry, snd entry)) (preorder n) @ preorder_sub_nodes rest (i + 1)"

text \<open>
  Where the search by identifier started at depth \<open>d\<close> stops in the pre-order: at a node
  beyond the recursion bound or at a node with the searched identifier; and what it
  returns for the first such node.
\<close>

definition search_stops :: "int \<Rightarrow> 32 word \<Rightarrow> tree_path \<times> tree_node \<Rightarrow> bool" where
  "search_stops d ident entry =
     (d + int (length (fst entry)) > LIBPFF_MAXIMUM_ITEM_TREE_RECURSION_DEPTH
      \<or> has_identifier (snd entry) ident)"

definition search_outcome :: "int \<Rightarrow> (tree_path \<times> tree_node) option \<Rightarrow> error + tree_path option" where
  "search_outcome d first_stop =
     (case first_stop of
        None \<Rightarrow> Inr None
      | Some entry \<Rightarrow>
          if d + int (length (fst entry)) > LIBPFF_MAXIMUM_ITEM_TREE_RECURSION_DEPTH
          then Inl Recursion_Depth_Out_Of_Bounds
          else Inr (Some (fst entry)))"

text \<open>Every node of the tree is at most the recursion bound below the root.\<close>

definition within_depth_bound :: "tree_node \<Rightarrow> bool" where
  "within_depth_bound root =
     list_all (\<lambda>entry. int (length (fst entry)) \<le> LIBPFF_MAXIMUM_ITEM_TREE_RECURSION_DEPTH)
       (preorder root)"

definition matches :: "32 word \<Rightarrow> tree_path \<times> tree_node \<Rightarrow> bool" where
  "matches ident entry = has_identifier (snd entry) ident"

text \<open>
  Modelled from the spec: the leaves of scenario S6, a chain in which each leaf names
  the leaf before it as its parent and the first one is the root folder; and the sub
  nodes the item tree gets from it: \<open>k\<close> nested nodes with the identifiers from \<open>j\<close> on.
\<close>

fun chain :: "nat \<Rightarrow> libpff_index_value list" where
  "chain 0 = []"
| "chain (Suc n) = chain n @ [leaf (of_nat (Suc n)) (if n = 0 then 1 else of_nat n)]"

fun chain_from :: "nat \<Rightarrow> nat \<Rightarrow> tree_node list" where
  "chain_from j 0 = []"
| "chain_from j (Suc k) = [item_node (of_nat j) (chain_from (Suc j) k)]"

text \<open>
  The calls of the three routines of the builder, with their arguments, and what a call
  returns.
\<close>

datatype builder_call =
    Create_Node index_node int build_state
  | Create_Leaf_Node index_node int build_state
  | Create_Node_Sub_Nodes index_node int int int build_state

fun call_result :: "libpff_descriptors_index \<Rightarrow> builder_call \<Rightarrow> error + build_state" where
  "call_result idx (Create_Node node d st) = libpff_item_tree_create_node idx node d st"
| "call_result idx (Create_Leaf_Node node d st) = libpff_item_tree_create_leaf_node idx node d st"
| "call_result idx (Create_Node_Sub_Nodes node i n d st) = create_node_sub_nodes idx node i n d st"

text \<open>The state a call of the builder is made in.\<close>

fun call_state :: "builder_call \<Rightarrow> build_state" where
  "call_state (Create_Node node d st) = st"
| "call_state (Create_Leaf_Node node d st) = st"
| "call_state (Create_Node_Sub_Nodes node i n d st) = st"

text \<open>The argument checks at the head of \<^verbatim>\<open>libpff_item_tree_create_node\<close> and \<^verbatim>\<open>libpff_item_tree_create_leaf_node\<close> pass.\<close>

definition passes_checks :: "build_state \<Rightarrow> int \<Rightarrow> bool" where
  "passes_checks st d =
     (item_tree st \<noteq> None \<and> root_folder_item_tree_node st \<noteq> None
      \<and> 0 \<le> d \<and> d \<le> LIBPFF_MAXIMUM_ITEM_TREE_RECURSION_DEPTH)"

text \<open>
  The call sites of the builder: \<open>makes_call idx a b\<close> when the call \<open>a\<close>, on the index
  \<open>idx\<close>, makes the call \<open>b\<close>. The loop over the sub nodes counts as a call of the
  loop from the next sub node on, made when the call for the current sub node
  succeeded.
\<close>

inductive makes_call :: "libpff_descriptors_index \<Rightarrow> builder_call \<Rightarrow> builder_call \<Rightarrow> bool"
  for idx :: libpff_descriptors_index
where
  call_leaf_node:
    "passes_checks st d \<Longrightarrow>
     libfdata_tree_node_get_number_of_sub_nodes idx node = Some n \<Longrightarrow>
     libfdata_tree_node_is_deleted idx node = Some False \<Longrightarrow>
     libfdata_tree_node_is_leaf idx node = Some True \<Longrightarrow>
     makes_call idx (Create_Node node d st) (Create_Leaf_Node node d st)"
| call_sub_nodes:
    "passes_checks st d \<Longrightarrow>
     libfdata_tree_node_get_number_of_sub_nodes idx node = Some n \<Longrightarrow>
     libfdata_tree_node_is_deleted idx node = Some False \<Longrightarrow>
     libfdata_tree_node_is_leaf idx node = Some False \<Longrightarrow>
     makes_call idx (Create_Node node d st) (Create_Node_Sub_Nodes node 0 n d st)"
| call_sub_node:
    "i < n \<Longrightarrow>
     libfdata_tree_node_get_sub_node_by_index idx node i = Some sub_node \<Longrightarrow>
     makes_call idx (Create_Node_Sub_Nodes node i n d st) (Create_Node sub_node (d + 1) st)"
| call_next_sub_node:
    "i < n \<Longrightarrow>
     libfdata_tree_node_get_sub_node_by_index idx node i = Some sub_node \<Longrightarrow>
     libpff_item_tree_create_node idx sub_node (d + 1) st = Inr st' \<Longrightarrow>
     makes_call idx (Create_Node_Sub_Nodes node i n d st) (Create_Node_Sub_Nodes node (i + 1) n d st')"
| call_read_ahead:
    "passes_checks st d \<Longrightarrow>
     libfdata_tree_node_get_node_value idx node = Some (Some v) \<Longrightarrow>
     identifier v \<le> 0xFFFFFFFF \<Longrightarrow> \<not> self_parented v \<Longrightarrow>
     libpff_item_tree_get_tree_node_by_identifier (item_tree_root_node st)
       (parent_identifier v) (Some None) 0 = Inr None \<Longrightarrow>
     libpff_index_tree_get_leaf_node_by_identifier idx (parent_identifier v) =
       Lookup_Found (Some parent_index_node) \<Longrightarrow>
     makes_call idx (Create_Leaf_Node node d st) (Create_Node parent_index_node (d + 1) st)"

code_pred makes_call .

text \<open>
  A call of \<^verbatim>\<open>libpff_item_tree_create_leaf_node\<close> that passes the checks, on a leaf
  with a self parented value, while the root folder slot is set.
\<close>

definition duplicate_root_call :: "libpff_descriptors_index \<Rightarrow> builder_call \<Rightarrow> bool" where
  "duplicate_root_call idx c =
     (case c of
        Create_Leaf_Node node d st \<Rightarrow>
          passes_checks st d
          \<and> (case libfdata_tree_node_get_node_value idx node of
                Some (Some v) \<Rightarrow> identifier v \<le> 0xFFFFFFFF \<and> self_parented v
              | _ \<Rightarrow> False)
          \<and> (case root_folder_item_tree_node st of Some (Some _) \<Rightarrow> True | _ \<Rightarrow> False)
      | _ \<Rightarrow> False)"

text \<open>The state in which \<^verbatim>\<open>libpff_item_tree_create\<close> calls \<^verbatim>\<open>libpff_item_tree_create_node\<close>.\<close>

definition start_state :: "tree_node list option \<Rightarrow> 32 word option option \<Rightarrow> build_state" where
  "start_state orphans root_folder =
     \<lparr>item_tree = Some \<lparr>root_node = Some synthetic_root\<rparr>,
      orphan_node_list = orphans, root_folder_item_tree_node = root_folder\<rparr>"

section \<open>Navigation: argument validation\<close>

text \<open>
  C10. A tree that was created and never built has no root node, and the search by
  identifier on it is an error for every identifier and every result parameter; it
  neither finds a node nor reports that there is none.
\<close>

theorem get_node_by_identifier_before_build:
  "libpff_item_tree_initialize (Some None) = Inr \<lparr>root_node = None\<rparr>
   \<and> libpff_item_tree_get_node_by_identifier (Some \<lparr>root_node = None\<rparr>)
         item_identifier item_tree_node = Inl Invalid_Item_Tree_Node"
  by (simp add: libpff_item_tree_initialize_def libpff_item_tree_get_node_by_identifier_def)

lemma get_tree_node_null_result:
  "libpff_item_tree_get_tree_node_by_identifier n ident None d =
     (case libpff_item_tree_get_tree_node_by_identifier n ident (Some None) d of
        Inr (Some p) \<Rightarrow> Inl Invalid_Result_Item_Tree_Node
      | r \<Rightarrow> r)"
  "get_tree_node_by_identifier_sub_nodes subs i ident None d =
     (case get_tree_node_by_identifier_sub_nodes subs i ident (Some None) d of
        Inr (Some p) \<Rightarrow> Inl Invalid_Result_Item_Tree_Node
      | r \<Rightarrow> r)"
  by (induction n ident "None :: tree_path option option" d
        and subs i ident "None :: tree_path option option" d
      rule: libpff_item_tree_get_tree_node_by_identifier_get_tree_node_by_identifier_sub_nodes.induct)
     (auto split: option.splits sum.splits)

lemma get_tree_node_set_result:
  "libpff_item_tree_get_tree_node_by_identifier n ident (Some (Some q)) d =
     (case libpff_item_tree_get_tree_node_by_identifier n ident (Some None) d of
        Inr (Some p) \<Rightarrow> Inl Result_Item_Tree_Node_Already_Set
      | r \<Rightarrow> r)"
  "get_tree_node_by_identifier_sub_nodes subs i ident (Some (Some q)) d =
     (case get_tree_node_by_identifier_sub_nodes subs i ident (Some None) d of
        Inr (Some p) \<Rightarrow> Inl Result_Item_Tree_Node_Already_Set
      | r \<Rightarrow> r)"
  by (induction n ident "Some (Some q) :: tree_path option option" d
        and subs i ident "Some (Some q) :: tree_path option option" d
      rule: libpff_item_tree_get_tree_node_by_identifier_get_tree_node_by_identifier_sub_nodes.induct)
     (auto split: option.splits sum.splits)

text \<open>
  C9 as the code has it. A \<^verbatim>\<open>NULL\<close> tree is an error. The search by identifier
  looks at its result parameter only at a node whose identifier is the searched one:
  with a \<^verbatim>\<open>NULL\<close> or an already set result parameter it returns an error where
  it would have found a node, and returns what it would have returned otherwise, be
  it an error or not found. The search among the sub nodes of a node checks the node
  and the result parameter before it scans.
\<close>

theorem find_argument_validation:
  "libpff_item_tree_get_node_by_identifier None ident result = Inl Invalid_Item_Tree
   \<and> libpff_item_tree_get_node_by_identifier (Some t) ident None =
       (case libpff_item_tree_get_node_by_identifier (Some t) ident (Some None) of
          Inr (Some p) \<Rightarrow> Inl Invalid_Result_Item_Tree_Node
        | r \<Rightarrow> r)
   \<and> libpff_item_tree_get_node_by_identifier (Some t) ident (Some (Some q)) =
       (case libpff_item_tree_get_node_by_identifier (Some t) ident (Some None) of
          Inr (Some p) \<Rightarrow> Inl Result_Item_Tree_Node_Already_Set
        | r \<Rightarrow> r)
   \<and> libpff_item_tree_get_sub_node_by_identifier None ident sub_node = Inl Invalid_Item_Tree_Node
   \<and> libpff_item_tree_get_sub_node_by_identifier (Some n) ident None = Inl Invalid_Sub_Node
   \<and> libpff_item_tree_get_sub_node_by_identifier (Some n) ident (Some (Some i)) =
       Inl Sub_Node_Already_Set"
  by (simp add: libpff_item_tree_get_node_by_identifier_def
        libpff_item_tree_get_sub_node_by_identifier_def
        get_tree_node_null_result(1) [of "root_node t" ident 0]
        get_tree_node_set_result(1) [of "root_node t" ident q 0])

text \<open>
  The claim as stated fails: on the tree built from an empty index, the search for
  identifier 5 with a \<^verbatim>\<open>NULL\<close> result parameter, and with one that is already
  set, reports not found.
\<close>

theorem find_argument_validation_counterexample:
  "build (flat_index []) =
     Inr \<lparr>item_tree = Some \<lparr>root_node = Some synthetic_root\<rparr>,
          orphan_node_list = Some [], root_folder_item_tree_node = Some None\<rparr>
   \<and> libpff_item_tree_get_node_by_identifier (Some \<lparr>root_node = Some synthetic_root\<rparr>) 5 None
       = Inr None
   \<and> libpff_item_tree_get_node_by_identifier (Some \<lparr>root_node = Some synthetic_root\<rparr>) 5
         (Some (Some [])) = Inr None"
  by code_simp

section \<open>Recursion depth\<close>





lemma create_leaf_node_unfold:
  assumes "item_tree st = Some t" and "root_folder_item_tree_node st = Some r"
    and "0 \<le> d" and "d \<le> LIBPFF_MAXIMUM_ITEM_TREE_RECURSION_DEPTH"
    and "libfdata_tree_node_get_node_value idx node = Some (Some v)"
    and "identifier v \<le> 0xFFFFFFFF"
  shows "libpff_item_tree_create_leaf_node idx node d st =
     (if self_parented v then create_leaf_node_root_folder st r (item_descriptor_of v)
      else case libpff_item_tree_get_tree_node_by_identifier (item_tree_root_node st)
                  (parent_identifier v) (Some None) 0 of
             Inl e \<Rightarrow> Inl e
           | Inr (Some parent_node) \<Rightarrow> create_leaf_node_insert st parent_node (item_descriptor_of v)
           | Inr None \<Rightarrow>
               (case libpff_index_tree_get_leaf_node_by_identifier idx (parent_identifier v) of
                  Lookup_Error \<Rightarrow> Inl (Cursor_Error Get_Leaf_Node_By_Identifier)
                | Lookup_Not_Found \<Rightarrow> create_leaf_node_orphan st (item_descriptor_of v)
                | Lookup_Found None \<Rightarrow> Inl Missing_Parent_Index_Node
                | Lookup_Found (Some parent_index_node) \<Rightarrow>
                    (case libpff_item_tree_create_node idx parent_index_node (d + 1) st of
                       Inl e \<Rightarrow> Inl e
                     | Inr st' \<Rightarrow>
                         (case libpff_item_tree_get_tree_node_by_identifier
                                 (item_tree_root_node st') (parent_identifier v) (Some None) 0 of
                            Inl e \<Rightarrow> Inl e
                          | Inr None \<Rightarrow> create_leaf_node_orphan st' (item_descriptor_of v)
                          | Inr (Some parent_node) \<Rightarrow>
                              create_leaf_node_insert st' parent_node (item_descriptor_of v)))))"
proof -
  from assms(6) have small: "\<not> 0xFFFFFFFF < identifier v" by simp
  show ?thesis
  proof (cases "self_parented v")
    case True
    with assms(1-5) small show ?thesis
      by (simp add: libpff_item_tree_create_leaf_node.simps [of idx node d st] Let_def
            self_parented_def item_descriptor_of_def del: ucast_eq)
  next
    case False
    with assms(1-5) small show ?thesis
      unfolding item_descriptor_of_def self_parented_def
      by (simp add: libpff_item_tree_create_leaf_node.simps [of idx node d st] Let_def)
  qed
qed

lemma create_node_leaf:
  assumes "item_tree st = Some t" and "root_folder_item_tree_node st = Some r"
    and "0 \<le> d" and "d \<le> LIBPFF_MAXIMUM_ITEM_TREE_RECURSION_DEPTH"
    and "libfdata_tree_node_get_number_of_sub_nodes idx node = Some n"
    and "libfdata_tree_node_is_deleted idx node = Some False"
    and "libfdata_tree_node_is_leaf idx node = Some True"
  shows "libpff_item_tree_create_node idx node d st =
         libpff_item_tree_create_leaf_node idx node d st"
  using assms by (simp add: libpff_item_tree_create_node.simps [of idx node d st])






section \<open>Sorted-unique insertion\<close>

lemma identifier_less_trans:
  "identifier_less a b \<Longrightarrow> identifier_less b c \<Longrightarrow> identifier_less a c"
  by (auto simp: identifier_less_def split: option.splits)

lemma insert_sub_node_ascending:
  "sub_nodes_ascending subs \<Longrightarrow> has_value node \<Longrightarrow>
   insert_sub_node subs node = Inr (Some subs') \<Longrightarrow>
   sub_nodes_ascending subs' \<and> set subs' = insert node (set subs)"
proof (induction subs arbitrary: subs')
  case Nil
  then show ?case by (auto simp: sub_nodes_ascending_def)
next
  case (Cons c rest)
  from Cons.prems(2) obtain v where v: "node_value node = Some v"
    by (auto simp: has_value_def split: option.splits)
  from Cons.prems(1) obtain w where w: "node_value c = Some w"
    by (auto simp: sub_nodes_ascending_def has_value_def split: option.splits)
  from Cons.prems(1) have rest: "sub_nodes_ascending rest"
    and above: "\<forall>x \<in> set rest. identifier_less c x"
    by (auto simp: sub_nodes_ascending_def)
  show ?case
  proof (cases "libpff_item_descriptor_compare v w")
    case LIBCDATA_COMPARE_LESS
    then have less: "identifier_less node c"
      by (auto simp: libpff_item_descriptor_compare_def identifier_less_def v w split: if_splits)
    from LIBCDATA_COMPARE_LESS Cons.prems(3) have eq: "subs' = node # c # rest"
      by (simp add: v w)
    have "\<forall>x \<in> set rest. identifier_less node x"
      using less above identifier_less_trans by blast
    with less Cons.prems(1,2) show ?thesis
      by (auto simp: eq sub_nodes_ascending_def)
  next
    case LIBCDATA_COMPARE_EQUAL
    with Cons.prems(3) show ?thesis by (simp add: v w)
  next
    case LIBCDATA_COMPARE_GREATER
    then have greater: "identifier_less c node"
      by (auto simp: libpff_item_descriptor_compare_def identifier_less_def v w split: if_splits)
    from LIBCDATA_COMPARE_GREATER Cons.prems(3) obtain rest' where
      ins: "insert_sub_node rest node = Inr (Some rest')" and eq: "subs' = c # rest'"
      by (auto simp: v w split: sum.splits option.splits)
    from Cons.IH [OF rest Cons.prems(2) ins]
    have asc: "sub_nodes_ascending rest'" and set: "set rest' = insert node (set rest)"
      by simp_all
    from Cons.prems(1) have "has_value c" by (simp add: sub_nodes_ascending_def)
    with asc set above greater show ?thesis
      by (auto simp: eq sub_nodes_ascending_def)
  qed
qed

lemma insert_sub_node_duplicate:
  "sub_nodes_ascending subs \<Longrightarrow> c \<in> set subs \<Longrightarrow>
   has_identifier c (descriptor_identifier v) \<Longrightarrow>
   insert_sub_node subs (Tree_Node (Some v) []) = Inr None"
proof (induction subs)
  case Nil
  then show ?case by simp
next
  case (Cons h rest)
  from Cons.prems(1) obtain w where w: "node_value h = Some w"
    by (auto simp: sub_nodes_ascending_def has_value_def split: option.splits)
  from Cons.prems(1) have rest: "sub_nodes_ascending rest"
    and above: "\<forall>x \<in> set rest. identifier_less h x"
    by (auto simp: sub_nodes_ascending_def)
  show ?case
  proof (cases "c = h")
    case True
    with Cons.prems(3) show ?thesis
      by (simp add: w has_identifier_def libpff_item_descriptor_compare_def)
  next
    case False
    with Cons.prems(2) have c: "c \<in> set rest" by simp
    with above have "identifier_less h c" by blast
    with Cons.prems(3) have "descriptor_identifier w < descriptor_identifier v"
      by (auto simp: identifier_less_def has_identifier_def w split: option.splits)
    then have "libpff_item_descriptor_compare v w = LIBCDATA_COMPARE_GREATER"
      by (auto simp: libpff_item_descriptor_compare_def)
    with Cons.IH [OF rest c Cons.prems(3)] show ?thesis
      by (simp add: w)
  qed
qed

lemma sub_nodes_ascending_values:
  "map node_value xs = map node_value ys \<Longrightarrow> sub_nodes_ascending xs = sub_nodes_ascending ys"
proof -
  assume eq: "map node_value xs = map node_value ys"
  let ?less = "\<lambda>a b. case a of None \<Rightarrow> False
      | Some x \<Rightarrow> (case b of None \<Rightarrow> False
          | Some y \<Rightarrow> descriptor_identifier x < descriptor_identifier (y :: libpff_item_descriptor))"
  have less: "identifier_less = (\<lambda>a b. ?less (node_value a) (node_value b))"
    by (intro ext) (simp add: identifier_less_def)
  have "list_all has_value xs = list_all (\<lambda>a. case a of None \<Rightarrow> False | Some _ \<Rightarrow> True) (map node_value xs)"
    for xs :: "tree_node list"
    by (induction xs) (simp_all add: has_value_def)
  moreover have "sorted_wrt identifier_less xs = sorted_wrt ?less (map node_value xs)"
    for xs :: "tree_node list"
    by (simp add: less sorted_wrt_map)
  ultimately show ?thesis
    by (simp add: sub_nodes_ascending_def eq)
qed

lemma tree_sorted_at:
  "tree_sorted t \<Longrightarrow> tree_node_at t p = Some n \<Longrightarrow> tree_sorted n"
proof (induction p arbitrary: t)
  case Nil
  then show ?case by simp
next
  case (Cons i p)
  obtain v subs where t: "t = Tree_Node v subs" by (cases t)
  from Cons.prems(2) have i: "i < length subs" and at: "tree_node_at (subs ! i) p = Some n"
    by (auto simp: t split: if_splits)
  from Cons.prems(1) i have "tree_sorted (subs ! i)" by (simp add: t)
  then show ?case using at by (rule Cons.IH)
qed

lemma tree_node_replace_value:
  "tree_node_at t p = Some n \<Longrightarrow> node_value n' = node_value n \<Longrightarrow>
   node_value (tree_node_replace t p n') = node_value t"
  by (cases p) (auto split: if_splits)

lemma tree_sorted_replace:
  "tree_sorted t \<Longrightarrow> tree_node_at t p = Some n \<Longrightarrow> tree_sorted n' \<Longrightarrow>
   node_value n' = node_value n \<Longrightarrow> tree_sorted (tree_node_replace t p n')"
proof (induction p arbitrary: t)
  case Nil
  then show ?case by simp
next
  case (Cons i p)
  obtain v subs where t: "t = Tree_Node v subs" by (cases t)
  from Cons.prems(2) have i: "i < length subs" and at: "tree_node_at (subs ! i) p = Some n"
    by (auto simp: t split: if_splits)
  let ?c = "tree_node_replace (subs ! i) p n'"
  from Cons.prems(1) i have "tree_sorted (subs ! i)" by (simp add: t)
  from Cons.IH [OF this at Cons.prems(3,4)] have c: "tree_sorted ?c" .
  have "node_value ?c = node_value (subs ! i)"
    using at Cons.prems(4) by (rule tree_node_replace_value)
  then have "map node_value (subs[i := ?c]) = map node_value subs"
    by (simp add: map_update list_update_same_conv i)
  then have "sub_nodes_ascending (subs[i := ?c]) = sub_nodes_ascending subs"
    by (rule sub_nodes_ascending_values)
  moreover have "\<forall>x \<in> set (subs[i := ?c]). tree_sorted x"
    using Cons.prems(1) c by (auto simp: t dest!: subsetD [OF set_update_subset_insert])
  ultimately show ?case
    using Cons.prems(1) i by (simp add: t)
qed

section \<open>A build is a sequence of leaf steps\<close>

lemma build_steps:
  "libpff_item_tree_create_node idx node d st = Inr st' \<Longrightarrow> (leaf_step idx)\<^sup>*\<^sup>* st st'"
  "libpff_item_tree_create_leaf_node idx node d st = Inr st' \<Longrightarrow> (leaf_step idx)\<^sup>*\<^sup>* st st'"
  "create_node_sub_nodes idx node i n d st = Inr st' \<Longrightarrow> (leaf_step idx)\<^sup>*\<^sup>* st st'"
proof (induction idx node d st and idx node d st and idx node i n d st
       arbitrary: st' and st' and st'
       rule: libpff_item_tree_create_node_libpff_item_tree_create_leaf_node_create_node_sub_nodes.induct)
  case (1 idx node d st)
  from "1.prems" "1.IH" show ?case
    by (auto simp: libpff_item_tree_create_node.simps [of idx node d st]
             split: option.splits if_splits bool.splits)
next
  case (2 idx node d st)
  from "2.prems" obtain t rf v where
    ptrs: "item_tree st = Some t" "root_folder_item_tree_node st = Some rf"
    and depth: "\<not> (d < 0 \<or> LIBPFF_MAXIMUM_ITEM_TREE_RECURSION_DEPTH < d)"
    and v: "libfdata_tree_node_get_node_value idx node = Some (Some v)"
    and small: "\<not> 0xFFFFFFFF < identifier v"
    by (auto simp: libpff_item_tree_create_leaf_node.simps [of idx node d st]
             split: option.splits if_splits)
  from small have le: "identifier v \<le> 0xFFFFFFFF" by simp
  show ?case
  proof (cases "self_parented v")
    case True
    with "2.prems" ptrs depth v small
    have "create_leaf_node_root_folder st rf (item_descriptor_of v) = Inr st'"
      by (simp add: libpff_item_tree_create_leaf_node.simps [of idx node d st]
            self_parented_def item_descriptor_of_def Let_def)
    from step_root_folder [OF v le True ptrs(2) this] show ?thesis by blast
  next
    case False
    then have ne: "(ucast (identifier v) :: 32 word) \<noteq> parent_identifier v"
      by (simp add: self_parented_def)
    note unfold = libpff_item_tree_create_leaf_node.simps [of idx node d st]
    show ?thesis
    proof (cases "libpff_item_tree_get_tree_node_by_identifier (item_tree_root_node st)
                    (parent_identifier v) (Some None) 0")
      case (Inl e)
      with "2.prems" ptrs depth v small ne show ?thesis
        by (simp add: unfold Let_def)
    next
      case (Inr found)
      show ?thesis
      proof (cases found)
        case (Some parent_node)
        with "2.prems" ptrs depth v small ne Inr
        have "create_leaf_node_insert st parent_node (item_descriptor_of v) = Inr st'"
          by (simp add: unfold Let_def item_descriptor_of_def)
        from step_insert [OF v le False Inr [unfolded Some] this] show ?thesis by blast
      next
        case None
        show ?thesis
        proof (cases "libpff_index_tree_get_leaf_node_by_identifier idx (parent_identifier v)")
          case Lookup_Error
          with "2.prems" ptrs depth v small ne Inr None show ?thesis
            by (simp add: unfold Let_def)
        next
          case Lookup_Not_Found
          with "2.prems" ptrs depth v small ne Inr None
          have "create_leaf_node_orphan st (item_descriptor_of v) = Inr st'"
            by (simp add: unfold Let_def item_descriptor_of_def)
          from step_orphan [OF v le False Inr [unfolded None] this] show ?thesis by blast
        next
          case (Lookup_Found parent_index_node)
          show ?thesis
          proof (cases parent_index_node)
            case None
            with "2.prems" ptrs depth v small ne Inr \<open>found = None\<close> Lookup_Found show ?thesis
              by (simp add: unfold Let_def)
          next
            case (Some p)
            from "2.prems" ptrs depth v small ne Inr \<open>found = None\<close> Lookup_Found Some
            obtain st'' where
              ahead: "libpff_item_tree_create_node idx p (d + 1) st = Inr st''"
              and rest: "(case libpff_item_tree_get_tree_node_by_identifier
                                (item_tree_root_node st'') (parent_identifier v) (Some None) 0 of
                           Inl e \<Rightarrow> Inl e
                         | Inr None \<Rightarrow> create_leaf_node_orphan st'' (item_descriptor_of v)
                         | Inr (Some parent_node) \<Rightarrow>
                             create_leaf_node_insert st'' parent_node (item_descriptor_of v))
                        = Inr st'"
              by (auto simp: unfold Let_def item_descriptor_of_def [symmetric] split: sum.splits)
            have steps: "(leaf_step idx)\<^sup>*\<^sup>* st st''"
              by (rule "2.IH" [OF ptrs depth v refl small refl refl ne Inr \<open>found = None\<close>
                    Lookup_Found Some ahead])
            from rest have "leaf_step idx st'' st'"
              by (auto split: sum.splits option.splits
                    intro: step_orphan [OF v le False] step_insert [OF v le False])
            with steps show ?thesis by (rule rtranclp.rtrancl_into_rtrancl)
          qed
        qed
      qed
    qed
  qed
next
  case (3 idx node i n d st)
  show ?case
  proof (cases "i < n")
    case False
    with "3.prems" show ?thesis
      by (simp add: create_node_sub_nodes.simps [of idx node i n d st])
  next
    case True
    with "3.prems" obtain sub st'' where
      sub: "libfdata_tree_node_get_sub_node_by_index idx node i = Some sub"
      and first: "libpff_item_tree_create_node idx sub (d + 1) st = Inr st''"
      and rest: "create_node_sub_nodes idx node (i + 1) n d st'' = Inr st'"
      by (auto simp: create_node_sub_nodes.simps [of idx node i n d st]
               split: option.splits sum.splits)
    from "3.IH"(1) [OF True sub first] "3.IH"(2) [OF True sub first rest]
    show ?thesis by (rule rtranclp_trans)
  qed
qed

lemma sub_nodes_ascending_Nil [simp]: "sub_nodes_ascending []"
  by (simp add: sub_nodes_ascending_def)

lemma insert_node_sorted:
  assumes "tree_sorted parent" and "tree_sorted node" and "has_value node"
    and "libcdata_tree_node_insert_node parent node = Inr (Some parent')"
  shows "tree_sorted parent' \<and> node_value parent' = node_value parent"
proof -
  obtain v subs where parent: "parent = Tree_Node v subs" by (cases parent)
  from assms(4) obtain subs' where ins: "insert_sub_node subs node = Inr (Some subs')"
    and parent': "parent' = Tree_Node v subs'"
    by (auto simp: libcdata_tree_node_insert_node_def parent split: sum.splits option.splits)
  from assms(1) have "sub_nodes_ascending subs" by (simp add: parent)
  from insert_sub_node_ascending [OF this assms(3) ins] assms(1,2)
  show ?thesis by (auto simp: parent parent')
qed

lemma set_item_tree_root_node_simps [simp]:
  "item_tree_root_node (set_item_tree_root_node st root) = Some root"
  "root_folder_item_tree_node (set_item_tree_root_node st root) = root_folder_item_tree_node st"
  "orphan_node_list (set_item_tree_root_node st root) = orphan_node_list st"
  by (simp_all add: set_item_tree_root_node_def item_tree_root_node_def)

lemma item_tree_root_node_update [simp]:
  "item_tree_root_node (st\<lparr>root_folder_item_tree_node := r\<rparr>) = item_tree_root_node st"
  "item_tree_root_node (st\<lparr>orphan_node_list := l\<rparr>) = item_tree_root_node st"
  by (simp_all add: item_tree_root_node_def)

lemma root_folder_step_invariant:
  assumes "tree_invariant st"
    and "create_leaf_node_root_folder st root_folder item_descriptor = Inr st'"
  shows "tree_invariant st'"
proof -
  from assms(1) obtain root where root: "item_tree_root_node st = Some root"
    and inv: "has_identifier root 0" "tree_sorted root"
    by (auto simp: tree_invariant_def split: option.splits)
  let ?node = "Tree_Node (Some item_descriptor) []"
  from assms(2) root consider
    (rejected) "st' = st\<lparr>root_folder_item_tree_node := Some None\<rparr>"
    | (inserted) root' where "libcdata_tree_node_insert_node root ?node = Inr (Some root')"
        "st' = (set_item_tree_root_node st root')
                 \<lparr>root_folder_item_tree_node := Some (Some (descriptor_identifier item_descriptor))\<rparr>"
    by (auto simp: create_leaf_node_root_folder_def split: option.splits sum.splits)
  then show ?thesis
  proof cases
    case rejected
    with assms(1) show ?thesis by (simp add: tree_invariant_def)
  next
    case inserted
    have "tree_sorted ?node" "has_value ?node" by (simp_all add: has_value_def)
    from insert_node_sorted [OF inv(2) this inserted(1)] inv(1) inserted(2)
    show ?thesis by (simp add: tree_invariant_def has_identifier_def)
  qed
qed

lemma insert_step_invariant:
  assumes "tree_invariant st"
    and "create_leaf_node_insert st parent_node item_descriptor = Inr st'"
  shows "tree_invariant st'"
proof -
  from assms(1) obtain root where root: "item_tree_root_node st = Some root"
    and inv: "has_identifier root 0" "tree_sorted root"
    by (auto simp: tree_invariant_def split: option.splits)
  let ?node = "Tree_Node (Some item_descriptor) []"
  from assms(2) root obtain parent where
    parent: "tree_node_at root parent_node = Some parent"
    by (auto simp: create_leaf_node_insert_def split: option.splits)
  from assms(2) root parent consider
    (rejected) "st' = st"
    | (inserted) parent' where "libcdata_tree_node_insert_node parent ?node = Inr (Some parent')"
        "st' = set_item_tree_root_node st (tree_node_replace root parent_node parent')"
    by (auto simp: create_leaf_node_insert_def libcdata_tree_node_insert_value_def
             split: option.splits sum.splits)
  then show ?thesis
  proof cases
    case rejected
    with assms(1) show ?thesis by simp
  next
    case inserted
    have node: "tree_sorted ?node" "has_value ?node" by (simp_all add: has_value_def)
    from inv(2) parent have "tree_sorted parent" by (rule tree_sorted_at)
    from insert_node_sorted [OF this node inserted(1)]
    have parent': "tree_sorted parent'" "node_value parent' = node_value parent" by simp_all
    from tree_sorted_replace [OF inv(2) parent parent']
      tree_node_replace_value [OF parent parent'(2)] inv(1) inserted(2)
    show ?thesis by (simp add: tree_invariant_def has_identifier_def)
  qed
qed

lemma leaf_step_invariant:
  "leaf_step idx st st' \<Longrightarrow> tree_invariant st \<Longrightarrow> tree_invariant st'"
proof (induction rule: leaf_step.induct)
  case (step_root_folder node v st root_folder st')
  then show ?case by (blast intro: root_folder_step_invariant)
next
  case (step_orphan node v st st')
  then show ?case
    by (auto simp: create_leaf_node_orphan_def tree_invariant_def split: option.splits)
next
  case (step_insert node v st parent_node st')
  then show ?case by (blast intro: insert_step_invariant)
qed

lemma leaf_steps_invariant:
  "(leaf_step idx)\<^sup>*\<^sup>* st st' \<Longrightarrow> tree_invariant st \<Longrightarrow> tree_invariant st'"
  by (induction rule: rtranclp_induct) (auto intro: leaf_step_invariant)

lemma initial_state_invariant:
  "tree_invariant \<lparr>item_tree = Some \<lparr>root_node = Some (Tree_Node
       (Some (libpff_item_descriptor_initialize 0 0 0 0)) [])\<rparr>,
     orphan_node_list = orphans, root_folder_item_tree_node = root_folder\<rparr>"
  by (simp add: tree_invariant_def item_tree_root_node_def has_identifier_def
        libpff_item_descriptor_initialize_def)

lemma create_invariant:
  "libpff_item_tree_create tree idx orphans root_folder = Inr st \<Longrightarrow> tree_invariant st"
  by (auto simp: libpff_item_tree_create_def split: option.splits
           intro: leaf_steps_invariant [OF build_steps(1) initial_state_invariant])

section \<open>The claims on the builder\<close>

text \<open>
  C1. After a successful \<^verbatim>\<open>libpff_item_tree_create\<close> the item tree has a root
  node, and the sub nodes of every node of the tree (every node a path from the root
  leads to) all carry a descriptor and have strictly ascending, hence distinct,
  descriptor identifiers. The root folder node and every other node enter the tree
  through \<^verbatim>\<open>libcdata_tree_node_insert_node\<close> and \<^verbatim>\<open>libcdata_tree_node_insert_value\<close>
  with the unique entries flag, and each leaf step keeps the invariant.
\<close>

theorem built_tree_sorted:
  assumes "libpff_item_tree_create tree idx orphans root_folder = Inr st"
  shows "\<exists>root. item_tree_root_node st = Some root
           \<and> (\<forall>p n. tree_node_at root p = Some n \<longrightarrow> sub_nodes_ascending (sub_nodes n))"
proof -
  from create_invariant [OF assms] obtain root where root: "item_tree_root_node st = Some root"
    and sorted: "tree_sorted root"
    by (auto simp: tree_invariant_def split: option.splits)
  have "sub_nodes_ascending (sub_nodes n)" if "tree_node_at root p = Some n" for p n
    using tree_sorted_at [OF sorted that] by (cases n) simp
  with root show ?thesis by blast
qed

theorem built_tree_sorted_witness:
  "build (flat_index [leaf 1 1, leaf 3 1, leaf 2 1, leaf 2 1]) =
     Inr (built_state [item_node 1 [item_node 2 [], item_node 3 []]] [] (Some 1))
   \<and> sub_nodes_ascending [item_node 2 [], item_node 3 []]"
proof -
  let ?st = "built_state [item_node 1 [item_node 2 [], item_node 3 []]] [] (Some 1)"
  have b: "build (flat_index [leaf 1 1, leaf 3 1, leaf 2 1, leaf 2 1]) = Inr ?st"
    by code_simp
  then have "libpff_item_tree_create (Some \<lparr>root_node = None\<rparr>)
      (flat_index [leaf 1 1, leaf 3 1, leaf 2 1, leaf 2 1]) (Some []) (Some None) = Inr ?st"
    by (simp add: build_def)
  from built_tree_sorted [OF this] obtain root where
    root: "item_tree_root_node ?st = Some root"
    and all: "\<forall>p n. tree_node_at root p = Some n \<longrightarrow> sub_nodes_ascending (sub_nodes n)"
    by blast
  from root have "root = item_node 0 [item_node 1 [item_node 2 [], item_node 3 []]]"
    by (simp add: built_state_def item_tree_root_node_def)
  then have "tree_node_at root [0] = Some (item_node 1 [item_node 2 [], item_node 3 []])"
    by (simp add: item_node_def)
  with all have "sub_nodes_ascending (sub_nodes (item_node 1 [item_node 2 [], item_node 3 []]))"
    by blast
  with b show ?thesis by (simp add: item_node_def)
qed

lemma insert_value_duplicate:
  assumes "tree_sorted parent" and "child \<in> set (sub_nodes parent)"
    and "has_identifier child (descriptor_identifier item_descriptor)"
  shows "libcdata_tree_node_insert_value parent item_descriptor = Inr None"
proof -
  from assms(1) have "sub_nodes_ascending (sub_nodes parent)" by (cases parent) simp
  from insert_sub_node_duplicate [OF this assms(2,3)] show ?thesis
    by (simp add: libcdata_tree_node_insert_value_def libcdata_tree_node_insert_node_def)
qed

lemma descriptor_identifier_of [simp]:
  "descriptor_identifier (item_descriptor_of v) = ucast (identifier v)"
  by (simp add: item_descriptor_of_def libpff_item_descriptor_initialize_def)

lemma insert_duplicate_state:
  assumes "item_tree_root_node st = Some root" and "tree_sorted root"
    and "tree_node_at root parent_node = Some parent"
    and "child \<in> set (sub_nodes parent)"
    and "has_identifier child (ucast (identifier v))"
  shows "libcdata_tree_node_insert_value parent (item_descriptor_of v) = Inr None
         \<and> create_leaf_node_insert st parent_node (item_descriptor_of v) = Inr st"
proof -
  from assms(2,3) have "tree_sorted parent" by (rule tree_sorted_at)
  from insert_value_duplicate [OF this assms(4), of "item_descriptor_of v"] assms(5)
  have "libcdata_tree_node_insert_value parent (item_descriptor_of v) = Inr None" by simp
  with assms(1,3) show ?thesis by (simp add: create_leaf_node_insert_def)
qed

lemma leaf_step_root_folder_kept:
  "leaf_step idx st st' \<Longrightarrow> root_folder_item_tree_node st = Some (Some x) \<Longrightarrow>
   root_folder_item_tree_node st' = Some (Some x)"
  by (induction rule: leaf_step.induct)
     (auto simp: create_leaf_node_root_folder_def create_leaf_node_orphan_def
        create_leaf_node_insert_def split: option.splits sum.splits)

lemma leaf_steps_root_folder_kept:
  "(leaf_step idx)\<^sup>*\<^sup>* st st' \<Longrightarrow> root_folder_item_tree_node st = Some (Some x) \<Longrightarrow>
   root_folder_item_tree_node st' = Some (Some x)"
  by (induction rule: rtranclp_induct) (auto intro: leaf_step_root_folder_kept)

lemma leaf_step_no_root_folder:
  "leaf_step idx st st' \<Longrightarrow>
   \<forall>node v. libfdata_tree_node_get_node_value idx node = Some (Some v) \<longrightarrow> \<not> self_parented v \<Longrightarrow>
   root_folder_item_tree_node st' = root_folder_item_tree_node st"
  by (induction rule: leaf_step.induct)
     (auto simp: create_leaf_node_orphan_def create_leaf_node_insert_def
           split: option.splits sum.splits)

lemma leaf_steps_no_root_folder:
  "(leaf_step idx)\<^sup>*\<^sup>* st st' \<Longrightarrow>
   \<forall>node v. libfdata_tree_node_get_node_value idx node = Some (Some v) \<longrightarrow> \<not> self_parented v \<Longrightarrow>
   root_folder_item_tree_node st' = root_folder_item_tree_node st"
  by (induction rule: rtranclp_induct) (auto dest: leaf_step_no_root_folder)

lemma create_steps:
  "libpff_item_tree_create tree idx orphans root_folder = Inr st \<Longrightarrow>
   (leaf_step idx)\<^sup>*\<^sup>*
     \<lparr>item_tree = Some \<lparr>root_node = Some synthetic_root\<rparr>,
      orphan_node_list = orphans, root_folder_item_tree_node = root_folder\<rparr> st"
  by (auto simp: libpff_item_tree_create_def synthetic_root_def split: option.splits
           intro: build_steps(1))

lemma built_state_pointers:
  "item_tree (built_state subs orphans root_folder) =
     Some \<lparr>root_node = Some (item_node 0 subs)\<rparr>"
  "root_folder_item_tree_node (built_state subs orphans root_folder) = Some root_folder"
  "item_tree_root_node (built_state subs orphans root_folder) = Some (item_node 0 subs)"
  by (simp_all add: built_state_def item_tree_root_node_def)

lemma built_state_set_root:
  "set_item_tree_root_node (built_state subs orphans root_folder) (item_node 0 subs') =
     built_state subs' orphans root_folder"
  by (simp add: built_state_def set_item_tree_root_node_def)

lemma depth_one:
  "(0::int) \<le> 1" "1 \<le> LIBPFF_MAXIMUM_ITEM_TREE_RECURSION_DEPTH"
  by (simp_all add: LIBPFF_MAXIMUM_ITEM_TREE_RECURSION_DEPTH_def)

lemma create_result:
  "libpff_index_tree_get_root_node idx = Some root \<Longrightarrow>
   libpff_item_tree_create (Some \<lparr>root_node = None\<rparr>) idx orphans root_folder =
     call_result idx (Create_Node root 0 (start_state orphans root_folder))"
  by (simp add: libpff_item_tree_create_def start_state_def synthetic_root_def)

lemma leaf_lookup_not_found:
  "\<forall>w\<in>set leaves. identifier w \<noteq> ucast ident \<Longrightarrow>
   leaf_lookup_in leaves i ident = Lookup_Not_Found"
  by (induction leaves arbitrary: i) simp_all

lemma flat_index_leaf:
  assumes "i < length leaves"
  shows "libfdata_tree_node_get_number_of_sub_nodes (flat_index leaves) (Suc i) = Some 0"
    and "libfdata_tree_node_is_deleted (flat_index leaves) (Suc i) = Some False"
    and "libfdata_tree_node_is_leaf (flat_index leaves) (Suc i) = Some True"
    and "libfdata_tree_node_get_node_value (flat_index leaves) (Suc i) = Some (Some (leaves ! i))"
  using assms by (simp_all add: flat_index_def)

lemma search_empty_tree:
  "ident \<noteq> 0 \<Longrightarrow>
   libpff_item_tree_get_tree_node_by_identifier
     (item_tree_root_node (built_state [] orphans root_folder)) ident (Some None) 0 = Inr None"
  by (simp add: built_state_pointers item_node_def libpff_item_descriptor_initialize_def
        LIBPFF_MAXIMUM_ITEM_TREE_RECURSION_DEPTH_def)

lemma unknown_parent_leaf:
  assumes "i < length leaves"
    and "identifier (leaves ! i) \<le> 0xFFFFFFFF" and "\<not> self_parented (leaves ! i)"
    and "parent_identifier (leaves ! i) \<noteq> 0"
    and "\<forall>w\<in>set leaves. identifier w \<noteq> ucast (parent_identifier (leaves ! i))"
  shows "libpff_item_tree_create_node (flat_index leaves) (Suc i) (0 + 1)
      (built_state [] orphans None) =
    Inr (built_state [] (orphans @ [Tree_Node (Some (item_descriptor_of (leaves ! i))) []]) None)"
proof -
  let ?st = "built_state [] orphans None"
  note ptrs = built_state_pointers(1,2) [of "[]" orphans None]
  have "libpff_item_tree_create_node (flat_index leaves) (Suc i) 1 ?st =
      libpff_item_tree_create_leaf_node (flat_index leaves) (Suc i) 1 ?st"
    by (rule create_node_leaf [OF ptrs depth_one flat_index_leaf(1-3) [OF assms(1)]])
  also have "\<dots> = create_leaf_node_orphan ?st (item_descriptor_of (leaves ! i))"
  proof -
    have "libpff_index_tree_get_leaf_node_by_identifier (flat_index leaves)
        (parent_identifier (leaves ! i)) = Lookup_Not_Found"
      using leaf_lookup_not_found [OF assms(5)] by (simp add: flat_index_def)
    with assms(3) search_empty_tree [OF assms(4)] show ?thesis
      by (simp add: create_leaf_node_unfold [OF ptrs depth_one flat_index_leaf(4) [OF assms(1)] assms(2)])
  qed
  also have "\<dots> = Inr (built_state [] (orphans @ [Tree_Node (Some (item_descriptor_of (leaves ! i))) []]) None)"
    by (simp add: create_leaf_node_orphan_def built_state_def)
  finally show ?thesis by simp
qed

lemma unknown_parents_loop:
  assumes "\<forall>v\<in>set leaves. identifier v \<le> 0xFFFFFFFF \<and> \<not> self_parented v
      \<and> parent_identifier v \<noteq> 0
      \<and> (\<forall>w\<in>set leaves. identifier w \<noteq> ucast (parent_identifier v))"
  shows "i \<le> length leaves \<Longrightarrow> sub_node_index = int i \<Longrightarrow>
     create_node_sub_nodes (flat_index leaves) 0 sub_node_index (int (length leaves)) 0
         (built_state [] orphans None) =
       Inr (built_state []
              (orphans @ map (\<lambda>v. Tree_Node (Some (item_descriptor_of v)) []) (drop i leaves))
              None)"
proof (induction "length leaves - i" arbitrary: i sub_node_index orphans)
  case 0
  then have "i = length leaves" by simp
  with "0.prems" show ?case
    by (simp add: create_node_sub_nodes.simps [of _ _ "int (length leaves)" "int (length leaves)"])
next
  case (Suc n)
  then have i: "i < length leaves" by simp
  then have v: "leaves ! i \<in> set leaves" by simp
  have sub: "libfdata_tree_node_get_sub_node_by_index (flat_index leaves) 0 sub_node_index =
      Some (Suc i)"
    using i Suc.prems by (simp add: flat_index_def)
  have less: "sub_node_index < int (length leaves)" using i Suc.prems by simp
  let ?orphans = "orphans @ [Tree_Node (Some (item_descriptor_of (leaves ! i))) []]"
  have first: "libpff_item_tree_create_node (flat_index leaves) (Suc i) (0 + 1)
      (built_state [] orphans None) = Inr (built_state [] ?orphans None)"
    using assms v by (intro unknown_parent_leaf [OF i]) blast+
  have "create_node_sub_nodes (flat_index leaves) 0 (sub_node_index + 1) (int (length leaves)) 0
      (built_state [] ?orphans None) =
      Inr (built_state []
             (?orphans @ map (\<lambda>v. Tree_Node (Some (item_descriptor_of v)) []) (drop (Suc i) leaves))
             None)"
    using Suc.hyps(2) i Suc.prems by (intro Suc.hyps(1)) simp_all
  then have rest: "create_node_sub_nodes (flat_index leaves) 0 (sub_node_index + 1)
      (int (length leaves)) 0 (built_state [] ?orphans None) =
      Inr (built_state []
             (orphans @ map (\<lambda>v. Tree_Node (Some (item_descriptor_of v)) []) (drop i leaves))
             None)"
    using i by (simp add: Cons_nth_drop_Suc [symmetric])
  show ?case
    by (subst create_node_sub_nodes.simps) (simp only: less sub first rest if_True
          option.case sum.case)
qed

lemma build_unknown_parents:
  assumes "\<forall>v\<in>set leaves. identifier v \<le> 0xFFFFFFFF \<and> \<not> self_parented v
      \<and> parent_identifier v \<noteq> 0
      \<and> (\<forall>w\<in>set leaves. identifier w \<noteq> ucast (parent_identifier v))"
  shows "build (flat_index leaves) =
     Inr (built_state [] (map (\<lambda>v. Tree_Node (Some (item_descriptor_of v)) []) leaves) None)"
proof -
  let ?idx = "flat_index leaves"
  let ?st = "built_state [] [] None"
  have start: "start_state (Some []) (Some None) = ?st"
    by (simp add: start_state_def built_state_def synthetic_root_def item_node_def)
  have root: "libpff_index_tree_get_root_node ?idx = Some 0"
    by (simp add: flat_index_def)
  have "build ?idx = libpff_item_tree_create_node ?idx 0 0 ?st"
    using create_result [OF root, of "Some []" "Some None"] by (simp add: build_def start)
  also have "\<dots> = create_node_sub_nodes ?idx 0 0 (int (length leaves)) 0 ?st"
  proof -
    have "libfdata_tree_node_get_number_of_sub_nodes ?idx 0 = Some (int (length leaves))"
      "libfdata_tree_node_is_deleted ?idx 0 = Some False"
      "libfdata_tree_node_is_leaf ?idx 0 = Some False"
      by (simp_all add: flat_index_def)
    then show ?thesis
      by (simp add: libpff_item_tree_create_node.simps [of ?idx 0 0 ?st] built_state_pointers
            LIBPFF_MAXIMUM_ITEM_TREE_RECURSION_DEPTH_def)
  qed
  also have "\<dots> = Inr (built_state []
      ([] @ map (\<lambda>v. Tree_Node (Some (item_descriptor_of v)) []) (drop 0 leaves)) None)"
    by (rule unknown_parents_loop [OF assms]) simp_all
  finally show ?thesis by simp
qed


text \<open>
  C4. A leaf that is not self parented, whose parent identifier is not found in the
  tree and whose parent the lookup in the index does not find, becomes a node of its
  own at the end of the orphan node list, and its processing returns success.
  \<^verbatim>\<open>libpff_item_tree_create\<close> returns what the walk from the root of the index returns:
  nothing after the walk looks at the root folder slot. So when no leaf of the index is
  self parented and the walk succeeds, the build succeeds and leaves the slot unset.
  The build of leaves whose parents are neither 0 nor an identifier of the index
  succeeds with every leaf an orphan, in the order of the walk. The build of the leaves
  (10, 20) and (20, 30) succeeds with orphans only, and that of (5, 0) and (6, 5) with
  a tree and no root folder.
\<close>

theorem orphan_leaf:
  "(item_tree st = Some t \<and> root_folder_item_tree_node st = Some r
      \<and> 0 \<le> d \<and> d \<le> LIBPFF_MAXIMUM_ITEM_TREE_RECURSION_DEPTH
      \<and> libfdata_tree_node_get_node_value idx node = Some (Some v)
      \<and> identifier v \<le> 0xFFFFFFFF \<and> \<not> self_parented v
      \<and> libpff_item_tree_get_tree_node_by_identifier (item_tree_root_node st)
           (parent_identifier v) (Some None) 0 = Inr None
      \<and> libpff_index_tree_get_leaf_node_by_identifier idx (parent_identifier v) = Lookup_Not_Found
      \<and> orphan_node_list st = Some orphans \<longrightarrow>
    libpff_item_tree_create_leaf_node idx node d st =
      Inr (st\<lparr>orphan_node_list := Some (orphans @ [Tree_Node (Some (item_descriptor_of v)) []])\<rparr>))
   \<and> ((\<forall>node v. libfdata_tree_node_get_node_value idx' node = Some (Some v) \<longrightarrow> \<not> self_parented v)
      \<and> build idx' = Inr st' \<longrightarrow>
    root_folder_item_tree_node st' = Some None)
   \<and> (libpff_index_tree_get_root_node idx' = Some root_index_node \<longrightarrow>
    libpff_item_tree_create (Some \<lparr>root_node = None\<rparr>) idx' orphans' root_folder =
      libpff_item_tree_create_node idx' root_index_node 0 (start_state orphans' root_folder))
   \<and> ((\<forall>node v. libfdata_tree_node_get_node_value idx' node = Some (Some v) \<longrightarrow> \<not> self_parented v)
      \<and> libpff_index_tree_get_root_node idx' = Some root_index_node
      \<and> libpff_item_tree_create_node idx' root_index_node 0 (start_state (Some []) (Some None)) =
           Inr st' \<longrightarrow>
    build idx' = Inr st' \<and> root_folder_item_tree_node st' = Some None)
   \<and> ((\<forall>v\<in>set leaves. identifier v \<le> 0xFFFFFFFF \<and> \<not> self_parented v
          \<and> parent_identifier v \<noteq> 0
          \<and> (\<forall>w\<in>set leaves. identifier w \<noteq> ucast (parent_identifier v))) \<longrightarrow>
    build (flat_index leaves) =
      Inr (built_state [] (map (\<lambda>v. Tree_Node (Some (item_descriptor_of v)) []) leaves) None))
   \<and> build (flat_index [leaf 10 20, leaf 20 30]) =
       Inr (built_state [] [item_node 20 [], item_node 10 [], item_node 20 []] None)
   \<and> build (flat_index [leaf 5 0, leaf 6 5]) =
       Inr (built_state [item_node 5 [item_node 6 []]] [] None)"
proof -
  have orphan: "item_tree st = Some t \<and> root_folder_item_tree_node st = Some r
      \<and> 0 \<le> d \<and> d \<le> LIBPFF_MAXIMUM_ITEM_TREE_RECURSION_DEPTH
      \<and> libfdata_tree_node_get_node_value idx node = Some (Some v)
      \<and> identifier v \<le> 0xFFFFFFFF \<and> \<not> self_parented v
      \<and> libpff_item_tree_get_tree_node_by_identifier (item_tree_root_node st)
           (parent_identifier v) (Some None) 0 = Inr None
      \<and> libpff_index_tree_get_leaf_node_by_identifier idx (parent_identifier v) = Lookup_Not_Found
      \<and> orphan_node_list st = Some orphans \<longrightarrow>
    libpff_item_tree_create_leaf_node idx node d st =
      Inr (st\<lparr>orphan_node_list := Some (orphans @ [Tree_Node (Some (item_descriptor_of v)) []])\<rparr>)"
    by (auto simp: create_leaf_node_unfold [of st t r d idx node v] create_leaf_node_orphan_def)
  have unset: "(\<forall>node v. libfdata_tree_node_get_node_value idx' node = Some (Some v)
        \<longrightarrow> \<not> self_parented v)
      \<and> build idx' = Inr st' \<longrightarrow>
    root_folder_item_tree_node st' = Some None"
  proof
    assume a: "(\<forall>node v. libfdata_tree_node_get_node_value idx' node = Some (Some v)
                  \<longrightarrow> \<not> self_parented v) \<and> build idx' = Inr st'"
    then have "(leaf_step idx')\<^sup>*\<^sup>*
       \<lparr>item_tree = Some \<lparr>root_node = Some synthetic_root\<rparr>,
        orphan_node_list = Some [], root_folder_item_tree_node = Some None\<rparr> st'"
      by (auto simp: build_def intro: create_steps)
    from leaf_steps_no_root_folder [OF this] a
    show "root_folder_item_tree_node st' = Some None" by simp
  qed
  have walk: "libpff_index_tree_get_root_node idx' = Some root_index_node \<longrightarrow>
    libpff_item_tree_create (Some \<lparr>root_node = None\<rparr>) idx' orphans' root_folder =
      libpff_item_tree_create_node idx' root_index_node 0 (start_state orphans' root_folder)"
    by (simp add: create_result)
  have succeeds: "(\<forall>node v. libfdata_tree_node_get_node_value idx' node = Some (Some v)
        \<longrightarrow> \<not> self_parented v)
      \<and> libpff_index_tree_get_root_node idx' = Some root_index_node
      \<and> libpff_item_tree_create_node idx' root_index_node 0 (start_state (Some []) (Some None)) =
           Inr st' \<longrightarrow>
    build idx' = Inr st' \<and> root_folder_item_tree_node st' = Some None"
  proof
    assume a: "(\<forall>node v. libfdata_tree_node_get_node_value idx' node = Some (Some v)
                  \<longrightarrow> \<not> self_parented v)
        \<and> libpff_index_tree_get_root_node idx' = Some root_index_node
        \<and> libpff_item_tree_create_node idx' root_index_node 0 (start_state (Some []) (Some None)) =
             Inr st'"
    then have b: "build idx' = Inr st'"
      by (simp add: build_def create_result)
    with a unset show "build idx' = Inr st' \<and> root_folder_item_tree_node st' = Some None"
      by blast
  qed
  have family: "(\<forall>v\<in>set leaves. identifier v \<le> 0xFFFFFFFF \<and> \<not> self_parented v
          \<and> parent_identifier v \<noteq> 0
          \<and> (\<forall>w\<in>set leaves. identifier w \<noteq> ucast (parent_identifier v))) \<longrightarrow>
    build (flat_index leaves) =
      Inr (built_state [] (map (\<lambda>v. Tree_Node (Some (item_descriptor_of v)) []) leaves) None)"
    by (rule impI) (rule build_unknown_parents)
  have lost: "build (flat_index [leaf 10 20, leaf 20 30]) =
       Inr (built_state [] [item_node 20 [], item_node 10 [], item_node 20 []] None)"
    by code_simp
  have below_root: "build (flat_index [leaf 5 0, leaf 6 5]) =
       Inr (built_state [item_node 5 [item_node 6 []]] [] None)"
    by code_simp
  show ?thesis
    by (intro conjI orphan unset walk succeeds family lost below_root)
qed

theorem orphan_leaf_witness:
  "libpff_item_tree_create_leaf_node (flat_index [leaf 1 1, leaf 7 99]) 2 1
       (built_state [item_node 1 []] [] (Some 1)) =
     Inr (built_state [item_node 1 []] [item_node 7 []] (Some 1))
   \<and> build (flat_index [leaf 10 20, leaf 20 30]) =
     Inr (built_state [] [item_node 20 [], item_node 10 [], item_node 20 []] None)
   \<and> root_folder_item_tree_node
       (built_state [] [item_node 20 [], item_node 10 [], item_node 20 []] None) = Some None
   \<and> libpff_item_tree_create (Some \<lparr>root_node = None\<rparr>) (flat_index [leaf 5 0, leaf 6 5])
       (Some []) (Some None) = Inr (built_state [item_node 5 [item_node 6 []]] [] None)
   \<and> root_folder_item_tree_node (built_state [item_node 5 [item_node 6 []]] [] None) = Some None
   \<and> build (flat_index [leaf 7 99, leaf 8 98]) =
     Inr (built_state [] [item_node 7 [], item_node 8 []] None)"
proof -
  let ?idx = "flat_index [leaf 1 1, leaf 7 99]"
  let ?st = "built_state [item_node 1 []] [] (Some 1)"
  let ?lost = "flat_index [leaf 10 20, leaf 20 30]"
  let ?orphans = "built_state [] [item_node 20 [], item_node 10 [], item_node 20 []] None"
  let ?sub = "flat_index [leaf 5 0, leaf 6 5]"
  let ?tree = "built_state [item_node 5 [item_node 6 []]] [] None"
  have hyp: "item_tree ?st = Some \<lparr>root_node = Some (item_node 0 [item_node 1 []])\<rparr>
      \<and> root_folder_item_tree_node ?st = Some (Some 1)
      \<and> (0::int) \<le> 1 \<and> 1 \<le> LIBPFF_MAXIMUM_ITEM_TREE_RECURSION_DEPTH
      \<and> libfdata_tree_node_get_node_value ?idx 2 = Some (Some (leaf 7 99))
      \<and> identifier (leaf 7 99) \<le> 0xFFFFFFFF \<and> \<not> self_parented (leaf 7 99)
      \<and> libpff_item_tree_get_tree_node_by_identifier (item_tree_root_node ?st)
           (parent_identifier (leaf 7 99)) (Some None) 0 = Inr None
      \<and> libpff_index_tree_get_leaf_node_by_identifier ?idx (parent_identifier (leaf 7 99)) =
           Lookup_Not_Found
      \<and> orphan_node_list ?st = Some []"
    by code_simp
  from orphan_leaf [THEN conjunct1, THEN mp, OF hyp]
  have orphan: "libpff_item_tree_create_leaf_node ?idx 2 1 ?st =
      Inr (built_state [item_node 1 []] [item_node 7 []] (Some 1))"
    by (simp add: built_state_def item_node_def item_descriptor_of_def leaf_def)
  have none: "\<forall>node v. libfdata_tree_node_get_node_value ?lost node = Some (Some v)
      \<longrightarrow> \<not> self_parented v"
    by (auto simp: flat_index_def leaf_def self_parented_def less_Suc_eq nth_Cons'
             split: if_splits)
  have b: "build ?lost = Inr ?orphans"
    by code_simp
  from none b have "(\<forall>node v. libfdata_tree_node_get_node_value ?lost node = Some (Some v)
      \<longrightarrow> \<not> self_parented v) \<and> build ?lost = Inr ?orphans" by blast
  from orphan_leaf [THEN conjunct2, THEN conjunct1, THEN mp, OF this]
  have unset: "root_folder_item_tree_node ?orphans = Some None" .
  have root: "libpff_index_tree_get_root_node ?sub = Some 0"
    by (simp add: flat_index_def)
  have walk: "libpff_item_tree_create_node ?sub 0 0 (start_state (Some []) (Some None)) =
      Inr ?tree"
    by code_simp
  from orphan_leaf [THEN conjunct2, THEN conjunct2, THEN conjunct1, THEN mp, OF root, of "Some []" "Some None"] walk
  have created: "libpff_item_tree_create (Some \<lparr>root_node = None\<rparr>) ?sub (Some []) (Some None) =
      Inr ?tree"
    by simp
  have "\<forall>node v. libfdata_tree_node_get_node_value ?sub node = Some (Some v)
      \<longrightarrow> \<not> self_parented v"
    by (auto simp: flat_index_def leaf_def self_parented_def less_Suc_eq nth_Cons'
             split: if_splits)
  with root walk have "(\<forall>node v. libfdata_tree_node_get_node_value ?sub node = Some (Some v)
        \<longrightarrow> \<not> self_parented v)
      \<and> libpff_index_tree_get_root_node ?sub = Some 0
      \<and> libpff_item_tree_create_node ?sub 0 0 (start_state (Some []) (Some None)) = Inr ?tree"
    by blast
  from orphan_leaf [THEN conjunct2, THEN conjunct2, THEN conjunct2, THEN conjunct1, THEN mp, OF this]
  have kept: "root_folder_item_tree_node ?tree = Some None"
    by (rule conjunct2)
  have "\<forall>v\<in>set [leaf 7 99, leaf 8 98]. identifier v \<le> 0xFFFFFFFF \<and> \<not> self_parented v
      \<and> parent_identifier v \<noteq> 0
      \<and> (\<forall>w\<in>set [leaf 7 99, leaf 8 98]. identifier w \<noteq> ucast (parent_identifier v))"
    by (simp add: leaf_def self_parented_def)
  from orphan_leaf [THEN conjunct2, THEN conjunct2, THEN conjunct2, THEN conjunct2, THEN conjunct1, THEN mp, OF this]
  have family: "build (flat_index [leaf 7 99, leaf 8 98]) =
      Inr (built_state [] [item_node 7 [], item_node 8 []] None)"
    by (simp add: item_node_def item_descriptor_of_def leaf_def)
  from orphan b unset created kept family show ?thesis by blast
qed

section \<open>The calls of a build\<close>

lemma passes_checksE:
  assumes "passes_checks st d"
  obtains t r where "item_tree st = Some t" and "root_folder_item_tree_node st = Some r"
    and "0 \<le> d" and "d \<le> LIBPFF_MAXIMUM_ITEM_TREE_RECURSION_DEPTH"
  using assms by (auto simp: passes_checks_def)

lemma makes_call_error:
  assumes "makes_call idx a b" and "call_result idx b = Inl e"
  shows "call_result idx a = Inl e"
  using assms
proof (cases rule: makes_call.cases)
  case (call_leaf_node st d node n)
  from call_leaf_node(3) obtain t r where "item_tree st = Some t"
    "root_folder_item_tree_node st = Some r" "0 \<le> d"
    "d \<le> LIBPFF_MAXIMUM_ITEM_TREE_RECURSION_DEPTH" by (rule passes_checksE)
  with call_leaf_node assms(2) show ?thesis
    by (simp add: libpff_item_tree_create_node.simps [of idx node d st])
next
  case (call_sub_nodes st d node n)
  from call_sub_nodes(3) obtain t r where "item_tree st = Some t"
    "root_folder_item_tree_node st = Some r" "0 \<le> d"
    "d \<le> LIBPFF_MAXIMUM_ITEM_TREE_RECURSION_DEPTH" by (rule passes_checksE)
  with call_sub_nodes assms(2) show ?thesis
    by (simp add: libpff_item_tree_create_node.simps [of idx node d st])
next
  case (call_sub_node i n node sub_node d st)
  with assms(2) show ?thesis
    by (simp add: create_node_sub_nodes.simps [of idx node i n d st])
next
  case (call_next_sub_node i n node sub_node d st st')
  with assms(2) show ?thesis
    by (simp add: create_node_sub_nodes.simps [of idx node i n d st])
next
  case (call_read_ahead st d node v parent_index_node)
  from call_read_ahead(3) obtain t r where "item_tree st = Some t"
    "root_folder_item_tree_node st = Some r" "0 \<le> d"
    "d \<le> LIBPFF_MAXIMUM_ITEM_TREE_RECURSION_DEPTH" by (rule passes_checksE)
  from create_leaf_node_unfold [OF this call_read_ahead(4,5)] call_read_ahead assms(2)
  show ?thesis by simp
qed

lemma makes_calls_error:
  "(makes_call idx)\<^sup>*\<^sup>* a b \<Longrightarrow> call_result idx b = Inl e \<Longrightarrow> call_result idx a = Inl e"
  by (induction rule: rtranclp_induct) (auto intro: makes_call_error)

lemma duplicate_root_call_error:
  "duplicate_root_call idx c \<Longrightarrow> call_result idx c = Inl Root_Folder_Already_Set"
proof (cases c)
  case (Create_Leaf_Node node d st)
  assume "duplicate_root_call idx c"
  with Create_Leaf_Node obtain v x where checks: "passes_checks st d"
    and v: "libfdata_tree_node_get_node_value idx node = Some (Some v)"
      "identifier v \<le> 0xFFFFFFFF" "self_parented v"
    and set: "root_folder_item_tree_node st = Some (Some x)"
    by (auto simp: duplicate_root_call_def split: option.splits)
  from checks obtain t r where ptrs: "item_tree st = Some t"
    "root_folder_item_tree_node st = Some r" "0 \<le> d"
    "d \<le> LIBPFF_MAXIMUM_ITEM_TREE_RECURSION_DEPTH" by (rule passes_checksE)
  from create_leaf_node_unfold [OF ptrs v(1,2)] v(3) set ptrs(2) Create_Leaf_Node
  show ?thesis by (simp add: create_leaf_node_root_folder_def)
qed (simp_all add: duplicate_root_call_def)

lemma search_not_root_folder_error:
  "libpff_item_tree_get_tree_node_by_identifier n ident result d \<noteq> Inl Root_Folder_Already_Set"
  "get_tree_node_by_identifier_sub_nodes subs i ident result d \<noteq> Inl Root_Folder_Already_Set"
  by (induction n ident result d and subs i ident result d
      rule: libpff_item_tree_get_tree_node_by_identifier_get_tree_node_by_identifier_sub_nodes.induct)
     (auto split: option.splits sum.splits)

lemma leaf_endings_not_root_folder_error:
  "create_leaf_node_orphan st item_descriptor \<noteq> Inl Root_Folder_Already_Set"
  "create_leaf_node_insert st parent_node item_descriptor \<noteq> Inl Root_Folder_Already_Set"
  by (auto simp: create_leaf_node_orphan_def create_leaf_node_insert_def
           split: option.splits sum.splits)

lemma duplicate_root_origin:
  "libpff_item_tree_create_node idx node d st = Inl Root_Folder_Already_Set \<Longrightarrow>
     \<exists>c. (makes_call idx)\<^sup>*\<^sup>* (Create_Node node d st) c \<and> duplicate_root_call idx c"
  "libpff_item_tree_create_leaf_node idx node d st = Inl Root_Folder_Already_Set \<Longrightarrow>
     \<exists>c. (makes_call idx)\<^sup>*\<^sup>* (Create_Leaf_Node node d st) c \<and> duplicate_root_call idx c"
  "create_node_sub_nodes idx node i n d st = Inl Root_Folder_Already_Set \<Longrightarrow>
     \<exists>c. (makes_call idx)\<^sup>*\<^sup>* (Create_Node_Sub_Nodes node i n d st) c \<and> duplicate_root_call idx c"
proof (induction idx node d st and idx node d st and idx node i n d st
       rule: libpff_item_tree_create_node_libpff_item_tree_create_leaf_node_create_node_sub_nodes.induct)
  case (1 idx node d st)
  from "1.prems" obtain t r n where
    ptrs: "item_tree st = Some t" "root_folder_item_tree_node st = Some r"
    and depth: "\<not> (d < 0 \<or> LIBPFF_MAXIMUM_ITEM_TREE_RECURSION_DEPTH < d)"
    and n: "libfdata_tree_node_get_number_of_sub_nodes idx node = Some n"
    and deleted: "libfdata_tree_node_is_deleted idx node = Some False"
    by (auto simp: libpff_item_tree_create_node.simps [of idx node d st]
             split: option.splits if_splits bool.splits)
  from ptrs depth have checks: "passes_checks st d" by (simp add: passes_checks_def)
  from "1.prems" ptrs depth n deleted consider
    (leaf) "libfdata_tree_node_is_leaf idx node = Some True"
      "libpff_item_tree_create_leaf_node idx node d st = Inl Root_Folder_Already_Set"
    | (branch) "libfdata_tree_node_is_leaf idx node = Some False"
      "create_node_sub_nodes idx node 0 n d st = Inl Root_Folder_Already_Set"
    by (auto simp: libpff_item_tree_create_node.simps [of idx node d st]
             split: option.splits bool.splits)
  then show ?case
  proof cases
    case leaf
    from "1.IH"(1) [OF ptrs depth n deleted refl leaf(1) refl leaf(2)] obtain c where
      "(makes_call idx)\<^sup>*\<^sup>* (Create_Leaf_Node node d st) c" "duplicate_root_call idx c" by blast
    moreover have "makes_call idx (Create_Node node d st) (Create_Leaf_Node node d st)"
      using checks n deleted leaf(1) by (rule call_leaf_node)
    ultimately show ?thesis by (blast intro: converse_rtranclp_into_rtranclp)
  next
    case branch
    from "1.IH"(2) [OF ptrs depth n deleted refl branch(1) refl branch(2)] obtain c where
      "(makes_call idx)\<^sup>*\<^sup>* (Create_Node_Sub_Nodes node 0 n d st) c" "duplicate_root_call idx c"
      by blast
    moreover have "makes_call idx (Create_Node node d st) (Create_Node_Sub_Nodes node 0 n d st)"
      using checks n deleted branch(1) by (rule call_sub_nodes)
    ultimately show ?thesis by (blast intro: converse_rtranclp_into_rtranclp)
  qed
next
  case (2 idx node d st)
  from "2.prems" obtain t r v where
    ptrs: "item_tree st = Some t" "root_folder_item_tree_node st = Some r"
    and depth: "\<not> (d < 0 \<or> LIBPFF_MAXIMUM_ITEM_TREE_RECURSION_DEPTH < d)"
    and v: "libfdata_tree_node_get_node_value idx node = Some (Some v)"
    and small: "\<not> 0xFFFFFFFF < identifier v"
    by (auto simp: libpff_item_tree_create_leaf_node.simps [of idx node d st]
             split: option.splits if_splits)
  from small have le: "identifier v \<le> 0xFFFFFFFF" by simp
  from ptrs depth have checks: "passes_checks st d" by (simp add: passes_checks_def)
  from depth have bounds: "0 \<le> d" "d \<le> LIBPFF_MAXIMUM_ITEM_TREE_RECURSION_DEPTH" by simp_all
  note unfold = create_leaf_node_unfold [OF ptrs bounds v le]
  show ?case
  proof (cases "self_parented v")
    case True
    with "2.prems" unfold have "r \<noteq> None"
      by (auto simp: create_leaf_node_root_folder_def split: option.splits sum.splits)
    with checks v le True ptrs(2) have "duplicate_root_call idx (Create_Leaf_Node node d st)"
      by (auto simp: duplicate_root_call_def)
    then show ?thesis by blast
  next
    case False
    then have ne: "(ucast (identifier v) :: 32 word) \<noteq> parent_identifier v"
      by (simp add: self_parented_def)
    from "2.prems" False obtain p st' where
      none: "libpff_item_tree_get_tree_node_by_identifier (item_tree_root_node st)
          (parent_identifier v) (Some None) 0 = Inr None"
      and found: "libpff_index_tree_get_leaf_node_by_identifier idx (parent_identifier v) =
          Lookup_Found (Some p)"
      and ahead: "libpff_item_tree_create_node idx p (d + 1) st = Inl Root_Folder_Already_Set"
      by (auto simp: unfold search_not_root_folder_error leaf_endings_not_root_folder_error
               split: sum.splits option.splits leaf_lookup.splits)
    from "2.IH" [OF ptrs depth v refl small refl refl ne none refl found refl ahead]
    obtain c where "(makes_call idx)\<^sup>*\<^sup>* (Create_Node p (d + 1) st) c"
      "duplicate_root_call idx c" by blast
    moreover have "makes_call idx (Create_Leaf_Node node d st) (Create_Node p (d + 1) st)"
      using checks v le False none found by (rule call_read_ahead)
    ultimately show ?thesis by (blast intro: converse_rtranclp_into_rtranclp)
  qed
next
  case (3 idx node i n d st)
  from "3.prems" obtain sub where less: "i < n"
    and sub: "libfdata_tree_node_get_sub_node_by_index idx node i = Some sub"
    by (auto simp: create_node_sub_nodes.simps [of idx node i n d st]
             split: if_splits option.splits)
  from "3.prems" less sub consider
    (first) "libpff_item_tree_create_node idx sub (d + 1) st = Inl Root_Folder_Already_Set"
    | (later) st' where "libpff_item_tree_create_node idx sub (d + 1) st = Inr st'"
        "create_node_sub_nodes idx node (i + 1) n d st' = Inl Root_Folder_Already_Set"
    by (auto simp: create_node_sub_nodes.simps [of idx node i n d st] split: sum.splits)
  then show ?case
  proof cases
    case first
    from "3.IH"(1) [OF less sub first] obtain c where
      "(makes_call idx)\<^sup>*\<^sup>* (Create_Node sub (d + 1) st) c" "duplicate_root_call idx c" by blast
    moreover have "makes_call idx (Create_Node_Sub_Nodes node i n d st)
        (Create_Node sub (d + 1) st)"
      using less sub by (rule call_sub_node)
    ultimately show ?thesis by (blast intro: converse_rtranclp_into_rtranclp)
  next
    case later
    from "3.IH"(2) [OF less sub later] obtain c where
      "(makes_call idx)\<^sup>*\<^sup>* (Create_Node_Sub_Nodes node (i + 1) n d st') c"
      "duplicate_root_call idx c" by blast
    moreover have "makes_call idx (Create_Node_Sub_Nodes node i n d st)
        (Create_Node_Sub_Nodes node (i + 1) n d st')"
      using less sub later(1) by (rule call_next_sub_node)
    ultimately show ?thesis by (blast intro: converse_rtranclp_into_rtranclp)
  qed
qed

lemma makes_call_invariant:
  "makes_call idx a b \<Longrightarrow> tree_invariant (call_state a) \<Longrightarrow> tree_invariant (call_state b)"
  by (induction rule: makes_call.induct)
     (auto intro: leaf_steps_invariant [OF build_steps(1)])

lemma makes_calls_invariant:
  "(makes_call idx)\<^sup>*\<^sup>* a b \<Longrightarrow> tree_invariant (call_state a) \<Longrightarrow>
   tree_invariant (call_state b)"
  by (induction rule: rtranclp_induct) (auto intro: makes_call_invariant)

lemma start_state_invariant: "tree_invariant (start_state orphans root_folder)"
  using initial_state_invariant [of orphans root_folder]
  by (simp add: start_state_def synthetic_root_def)

lemma called_leaf_node_passes_checks:
  assumes "(makes_call idx)\<^sup>*\<^sup>* (Create_Node root d0 st0) (Create_Leaf_Node node d st)"
  shows "passes_checks st d"
proof -
  from assms obtain b where "makes_call idx b (Create_Leaf_Node node d st)"
    by (auto elim: rtranclp.cases)
  then show ?thesis
    by (cases rule: makes_call.cases) simp_all
qed

text \<open>
  C6. In every call of \<^verbatim>\<open>libpff_item_tree_create_leaf_node\<close> made in the course of a build,
  for a leaf that is not self parented: when the parent is found in the tree, at once or
  after the read-ahead built it, and a sub node of the parent already carries the
  identifier of the leaf, then the insertion with unique entries answers 0 and the
  processing of the leaf returns success with the state it found (after the read-ahead,
  the state the read-ahead left): the first node inserted stays, the new descriptor is
  dropped.
\<close>

theorem duplicate_child_discarded:
  assumes "(makes_call idx)\<^sup>*\<^sup>* (Create_Node root_index_node 0 (start_state orphans root_folder))
             (Create_Leaf_Node node d st)"
    and "libfdata_tree_node_get_node_value idx node = Some (Some v)"
    and "identifier v \<le> 0xFFFFFFFF" and "\<not> self_parented v"
  shows
  "(libpff_item_tree_get_tree_node_by_identifier (item_tree_root_node st)
        (parent_identifier v) (Some None) 0 = Inr (Some parent_node)
      \<and> item_tree_root_node st = Some root
      \<and> tree_node_at root parent_node = Some parent
      \<and> child \<in> set (sub_nodes parent) \<and> has_identifier child (ucast (identifier v)) \<longrightarrow>
      libcdata_tree_node_insert_value parent (item_descriptor_of v) = Inr None
      \<and> libpff_item_tree_create_leaf_node idx node d st = Inr st)
   \<and> (libpff_item_tree_get_tree_node_by_identifier (item_tree_root_node st)
        (parent_identifier v) (Some None) 0 = Inr None
      \<and> libpff_index_tree_get_leaf_node_by_identifier idx (parent_identifier v) =
           Lookup_Found (Some parent_index_node)
      \<and> libpff_item_tree_create_node idx parent_index_node (d + 1) st = Inr st'
      \<and> libpff_item_tree_get_tree_node_by_identifier (item_tree_root_node st')
           (parent_identifier v) (Some None) 0 = Inr (Some parent_node')
      \<and> item_tree_root_node st' = Some root'
      \<and> tree_node_at root' parent_node' = Some parent'
      \<and> child' \<in> set (sub_nodes parent') \<and> has_identifier child' (ucast (identifier v)) \<longrightarrow>
      libcdata_tree_node_insert_value parent' (item_descriptor_of v) = Inr None
      \<and> libpff_item_tree_create_leaf_node idx node d st = Inr st')"
proof -
  from makes_calls_invariant [OF assms(1)] have inv: "tree_invariant st"
    by (simp add: start_state_invariant)
  from called_leaf_node_passes_checks [OF assms(1)] obtain t r where
    ptrs: "item_tree st = Some t" "root_folder_item_tree_node st = Some r"
      "0 \<le> d" "d \<le> LIBPFF_MAXIMUM_ITEM_TREE_RECURSION_DEPTH"
    by (rule passes_checksE)
  note unfold = create_leaf_node_unfold [OF ptrs assms(2,3)]
  show ?thesis
  proof (intro conjI impI)
    assume a: "libpff_item_tree_get_tree_node_by_identifier (item_tree_root_node st)
          (parent_identifier v) (Some None) 0 = Inr (Some parent_node)
        \<and> item_tree_root_node st = Some root
        \<and> tree_node_at root parent_node = Some parent
        \<and> child \<in> set (sub_nodes parent) \<and> has_identifier child (ucast (identifier v))"
    with inv have sorted: "tree_sorted root" by (simp add: tree_invariant_def)
    from a insert_duplicate_state [OF _ sorted, of st parent_node parent child v]
    have dup: "libcdata_tree_node_insert_value parent (item_descriptor_of v) = Inr None"
        "create_leaf_node_insert st parent_node (item_descriptor_of v) = Inr st"
      by simp_all
    from dup(1) show "libcdata_tree_node_insert_value parent (item_descriptor_of v) = Inr None" .
    from a have "libpff_item_tree_get_tree_node_by_identifier (item_tree_root_node st)
          (parent_identifier v) (Some None) 0 = Inr (Some parent_node)" by blast
    with dup(2) assms(4) show "libpff_item_tree_create_leaf_node idx node d st = Inr st"
      by (simp add: unfold)
  next
    assume a: "libpff_item_tree_get_tree_node_by_identifier (item_tree_root_node st)
          (parent_identifier v) (Some None) 0 = Inr None
        \<and> libpff_index_tree_get_leaf_node_by_identifier idx (parent_identifier v) =
             Lookup_Found (Some parent_index_node)
        \<and> libpff_item_tree_create_node idx parent_index_node (d + 1) st = Inr st'
        \<and> libpff_item_tree_get_tree_node_by_identifier (item_tree_root_node st')
             (parent_identifier v) (Some None) 0 = Inr (Some parent_node')
        \<and> item_tree_root_node st' = Some root'
        \<and> tree_node_at root' parent_node' = Some parent'
        \<and> child' \<in> set (sub_nodes parent') \<and> has_identifier child' (ucast (identifier v))"
    then have "(leaf_step idx)\<^sup>*\<^sup>* st st'" by (blast intro: build_steps(1))
    from leaf_steps_invariant [OF this inv] a have sorted: "tree_sorted root'"
      by (simp add: tree_invariant_def)
    from a insert_duplicate_state [OF _ sorted, of st' parent_node' parent' child' v]
    have dup: "libcdata_tree_node_insert_value parent' (item_descriptor_of v) = Inr None"
        "create_leaf_node_insert st' parent_node' (item_descriptor_of v) = Inr st'"
      by simp_all
    from dup(1) show "libcdata_tree_node_insert_value parent' (item_descriptor_of v) = Inr None" .
    from a have "libpff_item_tree_get_tree_node_by_identifier (item_tree_root_node st)
          (parent_identifier v) (Some None) 0 = Inr None"
      "libpff_index_tree_get_leaf_node_by_identifier idx (parent_identifier v) =
             Lookup_Found (Some parent_index_node)"
      "libpff_item_tree_create_node idx parent_index_node (d + 1) st = Inr st'"
      "libpff_item_tree_get_tree_node_by_identifier (item_tree_root_node st')
             (parent_identifier v) (Some None) 0 = Inr (Some parent_node')" by blast+
    with dup(2) assms(4) show "libpff_item_tree_create_leaf_node idx node d st = Inr st'"
      by (simp add: unfold)
  qed
qed

theorem duplicate_child_discarded_witness:
  "libpff_item_tree_create_leaf_node (flat_index [leaf 1 1, leaf 5 1, leaf 5 1]) 3 1
       (built_state [item_node 1 [item_node 5 []]] [] (Some 1)) =
     Inr (built_state [item_node 1 [item_node 5 []]] [] (Some 1))
   \<and> libcdata_tree_node_insert_value (item_node 1 [item_node 5 []]) (item_descriptor_of (leaf 5 1))
       = Inr None
   \<and> libpff_item_tree_create_leaf_node nested_index 2 1 (built_state [item_node 1 []] [] (Some 1)) =
     Inr (built_state [item_node 1 [item_node 3 [item_node 5 []]]] [] (Some 1))"
proof -
  let ?idx = "flat_index [leaf 1 1, leaf 5 1, leaf 5 1]"
  let ?start = "start_state (Some []) (Some None)"
  let ?one = "built_state [item_node 1 []] [] (Some 1)"
  let ?two = "built_state [item_node 1 [item_node 5 []]] [] (Some 1)"
  let ?three = "built_state [item_node 1 [item_node 3 [item_node 5 []]]] [] (Some 1)"
  have "makes_call ?idx (Create_Node 0 0 ?start) (Create_Node_Sub_Nodes 0 0 3 0 ?start)"
    by (rule call_sub_nodes) (simp_all add: flat_index_def passes_checks_def
        start_state_def LIBPFF_MAXIMUM_ITEM_TREE_RECURSION_DEPTH_def)
  moreover have "makes_call ?idx (Create_Node_Sub_Nodes 0 0 3 0 ?start)
      (Create_Node_Sub_Nodes 0 (0 + 1) 3 0 ?one)"
  proof (rule call_next_sub_node)
    show "(0::int) < 3" by simp
    show "libfdata_tree_node_get_sub_node_by_index ?idx 0 0 = Some 1"
      by (simp add: flat_index_def)
    show "libpff_item_tree_create_node ?idx 1 (0 + 1) ?start = Inr ?one"
      by code_simp
  qed
  moreover have "makes_call ?idx (Create_Node_Sub_Nodes 0 (0 + 1) 3 0 ?one)
      (Create_Node_Sub_Nodes 0 (0 + 1 + 1) 3 0 ?two)"
  proof (rule call_next_sub_node)
    show "(0::int) + 1 < 3" by simp
    show "libfdata_tree_node_get_sub_node_by_index ?idx 0 (0 + 1) = Some 2"
      by (simp add: flat_index_def)
    show "libpff_item_tree_create_node ?idx 2 (0 + 1) ?one = Inr ?two"
      by code_simp
  qed
  moreover have "makes_call ?idx (Create_Node_Sub_Nodes 0 (0 + 1 + 1) 3 0 ?two)
      (Create_Node 3 (0 + 1) ?two)"
    by (rule call_sub_node) (simp_all add: flat_index_def)
  moreover have "makes_call ?idx (Create_Node 3 (0 + 1) ?two) (Create_Leaf_Node 3 (0 + 1) ?two)"
    by (rule call_leaf_node [where n = 0]) (simp_all add: flat_index_def passes_checks_def
        built_state_def LIBPFF_MAXIMUM_ITEM_TREE_RECURSION_DEPTH_def)
  ultimately have "(makes_call ?idx)\<^sup>*\<^sup>* (Create_Node 0 0 ?start)
      (Create_Leaf_Node 3 (0 + 1) ?two)"
    by (meson rtranclp.rtrancl_into_rtrancl rtranclp.rtrancl_refl)
  then have calls: "(makes_call ?idx)\<^sup>*\<^sup>* (Create_Node 0 0 ?start) (Create_Leaf_Node 3 1 ?two)"
    by simp
  have v: "libfdata_tree_node_get_node_value ?idx 3 = Some (Some (leaf 5 1))"
      "identifier (leaf 5 1) \<le> 0xFFFFFFFF" "\<not> self_parented (leaf 5 1)"
    by (simp_all add: flat_index_def leaf_def self_parented_def)
  have found: "libpff_item_tree_get_tree_node_by_identifier (item_tree_root_node ?two)
        (parent_identifier (leaf 5 1)) (Some None) 0 = Inr (Some [0])
      \<and> item_tree_root_node ?two = Some (item_node 0 [item_node 1 [item_node 5 []]])
      \<and> tree_node_at (item_node 0 [item_node 1 [item_node 5 []]]) [0] =
          Some (item_node 1 [item_node 5 []])
      \<and> item_node 5 [] \<in> set (sub_nodes (item_node 1 [item_node 5 []]))
      \<and> has_identifier (item_node 5 []) (ucast (identifier (leaf 5 1)))"
    by code_simp
  have direct: "libcdata_tree_node_insert_value (item_node 1 [item_node 5 []])
        (item_descriptor_of (leaf 5 1)) = Inr None
      \<and> libpff_item_tree_create_leaf_node ?idx 3 1 ?two = Inr ?two"
    using duplicate_child_discarded [OF calls v, THEN conjunct1] found by blast
  have "makes_call nested_index (Create_Node 0 0 ?start) (Create_Node_Sub_Nodes 0 0 3 0 ?start)"
    by (rule call_sub_nodes) (simp_all add: nested_index_def passes_checks_def
        start_state_def LIBPFF_MAXIMUM_ITEM_TREE_RECURSION_DEPTH_def)
  moreover have "makes_call nested_index (Create_Node_Sub_Nodes 0 0 3 0 ?start)
      (Create_Node_Sub_Nodes 0 (0 + 1) 3 0 ?one)"
  proof (rule call_next_sub_node)
    show "(0::int) < 3" by simp
    show "libfdata_tree_node_get_sub_node_by_index nested_index 0 0 = Some 1"
      by (simp add: nested_index_def)
    show "libpff_item_tree_create_node nested_index 1 (0 + 1) ?start = Inr ?one"
      by code_simp
  qed
  moreover have "makes_call nested_index (Create_Node_Sub_Nodes 0 (0 + 1) 3 0 ?one)
      (Create_Node 2 (0 + 1) ?one)"
    by (rule call_sub_node) (simp_all add: nested_index_def)
  moreover have "makes_call nested_index (Create_Node 2 (0 + 1) ?one)
      (Create_Leaf_Node 2 (0 + 1) ?one)"
    by (rule call_leaf_node [where n = 0]) (simp_all add: nested_index_def passes_checks_def
        built_state_def LIBPFF_MAXIMUM_ITEM_TREE_RECURSION_DEPTH_def)
  ultimately have "(makes_call nested_index)\<^sup>*\<^sup>* (Create_Node 0 0 ?start)
      (Create_Leaf_Node 2 (0 + 1) ?one)"
    by (meson rtranclp.rtrancl_into_rtrancl rtranclp.rtrancl_refl)
  then have calls': "(makes_call nested_index)\<^sup>*\<^sup>* (Create_Node 0 0 ?start)
      (Create_Leaf_Node 2 1 ?one)"
    by simp
  have v': "libfdata_tree_node_get_node_value nested_index 2 = Some (Some (leaf 5 3))"
      "identifier (leaf 5 3) \<le> 0xFFFFFFFF" "\<not> self_parented (leaf 5 3)"
    by (simp_all add: nested_index_def leaf_def self_parented_def)
  have ahead: "libpff_item_tree_get_tree_node_by_identifier (item_tree_root_node ?one)
        (parent_identifier (leaf 5 3)) (Some None) 0 = Inr None
      \<and> libpff_index_tree_get_leaf_node_by_identifier nested_index (parent_identifier (leaf 5 3)) =
           Lookup_Found (Some 3)
      \<and> libpff_item_tree_create_node nested_index 3 (1 + 1) ?one = Inr ?three
      \<and> libpff_item_tree_get_tree_node_by_identifier (item_tree_root_node ?three)
           (parent_identifier (leaf 5 3)) (Some None) 0 = Inr (Some [0, 0])
      \<and> item_tree_root_node ?three = Some (item_node 0 [item_node 1 [item_node 3 [item_node 5 []]]])
      \<and> tree_node_at (item_node 0 [item_node 1 [item_node 3 [item_node 5 []]]]) [0, 0] =
           Some (item_node 3 [item_node 5 []])
      \<and> item_node 5 [] \<in> set (sub_nodes (item_node 3 [item_node 5 []]))
      \<and> has_identifier (item_node 5 []) (ucast (identifier (leaf 5 3)))"
    by code_simp
  have "libpff_item_tree_create_leaf_node nested_index 2 1 ?one = Inr ?three"
    using duplicate_child_discarded [OF calls' v', THEN conjunct2] ahead by blast
  with direct show ?thesis by simp
qed

text \<open>
  C2. In a call of the builder that passes the argument checks: when the number of sub
  nodes of the index node cannot be read, the call returns success and leaves the
  state as it was, so the loop of the caller goes on with the next sub node. A failure
  of any other call on the index (is deleted, is leaf, sub node by index, node value,
  lookup of the parent leaf) makes the call return that error. And an error returned
  by any call made in the course of a build, however deep, is the error
  \<^verbatim>\<open>libpff_item_tree_create\<close> returns.
\<close>

theorem cursor_errors:
  "(passes_checks st d \<and> libfdata_tree_node_get_number_of_sub_nodes idx node = None \<longrightarrow>
      libpff_item_tree_create_node idx node d st = Inr st)
   \<and> (i < n \<and> libfdata_tree_node_get_sub_node_by_index idx node i = Some sub
        \<and> passes_checks st (d + 1)
        \<and> libfdata_tree_node_get_number_of_sub_nodes idx sub = None \<longrightarrow>
      create_node_sub_nodes idx node i n d st = create_node_sub_nodes idx node (i + 1) n d st)
   \<and> (passes_checks st d \<and> libfdata_tree_node_get_number_of_sub_nodes idx node = Some n
        \<and> libfdata_tree_node_is_deleted idx node = None \<longrightarrow>
      libpff_item_tree_create_node idx node d st = Inl (Cursor_Error Is_Deleted))
   \<and> (passes_checks st d \<and> libfdata_tree_node_get_number_of_sub_nodes idx node = Some n
        \<and> libfdata_tree_node_is_deleted idx node = Some False
        \<and> libfdata_tree_node_is_leaf idx node = None \<longrightarrow>
      libpff_item_tree_create_node idx node d st = Inl (Cursor_Error Is_Leaf))
   \<and> (i < n \<and> libfdata_tree_node_get_sub_node_by_index idx node i = None \<longrightarrow>
      create_node_sub_nodes idx node i n d st = Inl (Cursor_Error Get_Sub_Node_By_Index))
   \<and> (passes_checks st d \<and> libfdata_tree_node_get_node_value idx node = None \<longrightarrow>
      libpff_item_tree_create_leaf_node idx node d st = Inl (Cursor_Error Get_Node_Value))
   \<and> (passes_checks st d \<and> libfdata_tree_node_get_node_value idx node = Some (Some v)
        \<and> identifier v \<le> 0xFFFFFFFF \<and> \<not> self_parented v
        \<and> libpff_item_tree_get_tree_node_by_identifier (item_tree_root_node st)
             (parent_identifier v) (Some None) 0 = Inr None
        \<and> libpff_index_tree_get_leaf_node_by_identifier idx (parent_identifier v) = Lookup_Error \<longrightarrow>
      libpff_item_tree_create_leaf_node idx node d st =
        Inl (Cursor_Error Get_Leaf_Node_By_Identifier))
   \<and> (libpff_index_tree_get_root_node idx = Some root
        \<and> (makes_call idx)\<^sup>*\<^sup>* (Create_Node root 0 (start_state orphans root_folder)) c
        \<and> call_result idx c = Inl e \<longrightarrow>
      libpff_item_tree_create (Some \<lparr>root_node = None\<rparr>) idx orphans root_folder = Inl e)"
proof (intro conjI impI)
  assume "passes_checks st d \<and> libfdata_tree_node_get_number_of_sub_nodes idx node = None"
  then show "libpff_item_tree_create_node idx node d st = Inr st"
    by (auto simp: libpff_item_tree_create_node.simps [of idx node d st] passes_checks_def)
next
  assume a: "i < n \<and> libfdata_tree_node_get_sub_node_by_index idx node i = Some sub
        \<and> passes_checks st (d + 1)
        \<and> libfdata_tree_node_get_number_of_sub_nodes idx sub = None"
  then have "libpff_item_tree_create_node idx sub (d + 1) st = Inr st"
    by (auto simp: libpff_item_tree_create_node.simps [of idx sub "d + 1" st] passes_checks_def)
  with a show "create_node_sub_nodes idx node i n d st =
      create_node_sub_nodes idx node (i + 1) n d st"
    by (simp add: create_node_sub_nodes.simps [of idx node i n d st])
next
  assume "passes_checks st d \<and> libfdata_tree_node_get_number_of_sub_nodes idx node = Some n
        \<and> libfdata_tree_node_is_deleted idx node = None"
  then show "libpff_item_tree_create_node idx node d st = Inl (Cursor_Error Is_Deleted)"
    by (auto simp: libpff_item_tree_create_node.simps [of idx node d st] passes_checks_def)
next
  assume "passes_checks st d \<and> libfdata_tree_node_get_number_of_sub_nodes idx node = Some n
        \<and> libfdata_tree_node_is_deleted idx node = Some False
        \<and> libfdata_tree_node_is_leaf idx node = None"
  then show "libpff_item_tree_create_node idx node d st = Inl (Cursor_Error Is_Leaf)"
    by (auto simp: libpff_item_tree_create_node.simps [of idx node d st] passes_checks_def)
next
  assume "i < n \<and> libfdata_tree_node_get_sub_node_by_index idx node i = None"
  then show "create_node_sub_nodes idx node i n d st = Inl (Cursor_Error Get_Sub_Node_By_Index)"
    by (simp add: create_node_sub_nodes.simps [of idx node i n d st])
next
  assume "passes_checks st d \<and> libfdata_tree_node_get_node_value idx node = None"
  then show "libpff_item_tree_create_leaf_node idx node d st = Inl (Cursor_Error Get_Node_Value)"
    by (auto simp: libpff_item_tree_create_leaf_node.simps [of idx node d st] passes_checks_def)
next
  assume a: "passes_checks st d \<and> libfdata_tree_node_get_node_value idx node = Some (Some v)
        \<and> identifier v \<le> 0xFFFFFFFF \<and> \<not> self_parented v
        \<and> libpff_item_tree_get_tree_node_by_identifier (item_tree_root_node st)
             (parent_identifier v) (Some None) 0 = Inr None
        \<and> libpff_index_tree_get_leaf_node_by_identifier idx (parent_identifier v) = Lookup_Error"
  then obtain t r where ptrs: "item_tree st = Some t" "root_folder_item_tree_node st = Some r"
    "0 \<le> d" "d \<le> LIBPFF_MAXIMUM_ITEM_TREE_RECURSION_DEPTH"
    by (auto elim: passes_checksE)
  from a create_leaf_node_unfold [OF ptrs, of idx node v]
  show "libpff_item_tree_create_leaf_node idx node d st =
      Inl (Cursor_Error Get_Leaf_Node_By_Identifier)"
    by simp
next
  assume "libpff_index_tree_get_root_node idx = Some root
        \<and> (makes_call idx)\<^sup>*\<^sup>* (Create_Node root 0 (start_state orphans root_folder)) c
        \<and> call_result idx c = Inl e"
  then show "libpff_item_tree_create (Some \<lparr>root_node = None\<rparr>) idx orphans root_folder = Inl e"
    by (auto simp: create_result dest: makes_calls_error)
qed

theorem cursor_errors_witness:
  "libpff_item_tree_create_node
       (failing_index (flat_index [leaf 1 1, leaf 2 1]) (\<lambda>node. node = 1)
          (\<lambda>node. False) (\<lambda>node. False) (\<lambda>node. False)) 1 1 (built_state [] [] None) =
     Inr (built_state [] [] None)
   \<and> build (failing_index (flat_index [leaf 1 1, leaf 2 1]) (\<lambda>node. node = 1)
            (\<lambda>node. False) (\<lambda>node. False) (\<lambda>node. False)) =
       Inr (built_state [] [item_node 2 []] None)
   \<and> libpff_item_tree_create_node
         (failing_index (flat_index [leaf 1 1, leaf 2 1]) (\<lambda>node. False)
            (\<lambda>node. node = 2) (\<lambda>node. False) (\<lambda>node. False)) 2 1
         (built_state [item_node 1 []] [] (Some 1)) =
       Inl (Cursor_Error Is_Deleted)
   \<and> build (failing_index (flat_index [leaf 1 1, leaf 2 1]) (\<lambda>node. False)
            (\<lambda>node. node = 2) (\<lambda>node. False) (\<lambda>node. False)) =
       Inl (Cursor_Error Is_Deleted)"
proof -
  let ?skip = "failing_index (flat_index [leaf 1 1, leaf 2 1]) (\<lambda>node. node = 1)
            (\<lambda>node. False) (\<lambda>node. False) (\<lambda>node. False)"
  let ?fail = "failing_index (flat_index [leaf 1 1, leaf 2 1]) (\<lambda>node. False)
            (\<lambda>node. node = 2) (\<lambda>node. False) (\<lambda>node. False)"
  let ?start = "start_state (Some []) (Some None)"
  let ?second = "built_state [item_node 1 []] [] (Some 1)"
  have unreadable: "passes_checks (built_state [] [] None) 1
      \<and> libfdata_tree_node_get_number_of_sub_nodes ?skip 1 = None"
    by code_simp
  have skipped: "libpff_item_tree_create_node ?skip 1 1 (built_state [] [] None) =
      Inr (built_state [] [] None)"
    using cursor_errors [THEN conjunct1] unreadable by blast
  have continues: "build ?skip = Inr (built_state [] [item_node 2 []] None)"
    by code_simp
  have deleted: "passes_checks ?second 1
      \<and> libfdata_tree_node_get_number_of_sub_nodes ?fail 2 = Some 0
      \<and> libfdata_tree_node_is_deleted ?fail 2 = None"
    by code_simp
  have fatal: "libpff_item_tree_create_node ?fail 2 1 ?second = Inl (Cursor_Error Is_Deleted)"
    using cursor_errors [THEN conjunct2, THEN conjunct2, THEN conjunct1] deleted by blast
  have root: "libpff_index_tree_get_root_node ?fail = Some 0"
    by (simp add: failing_index_def flat_index_def)
  have "makes_call ?fail (Create_Node 0 0 ?start) (Create_Node_Sub_Nodes 0 0 2 0 ?start)"
    by (rule call_sub_nodes) (simp_all add: failing_index_def flat_index_def passes_checks_def
        start_state_def LIBPFF_MAXIMUM_ITEM_TREE_RECURSION_DEPTH_def)
  moreover have "makes_call ?fail (Create_Node_Sub_Nodes 0 0 2 0 ?start)
      (Create_Node_Sub_Nodes 0 (0 + 1) 2 0 ?second)"
  proof (rule call_next_sub_node)
    show "(0::int) < 2" by simp
    show "libfdata_tree_node_get_sub_node_by_index ?fail 0 0 = Some 1"
      by (simp add: failing_index_def flat_index_def)
    show "libpff_item_tree_create_node ?fail 1 (0 + 1) ?start = Inr ?second"
      by code_simp
  qed
  moreover have "makes_call ?fail (Create_Node_Sub_Nodes 0 (0 + 1) 2 0 ?second)
      (Create_Node 2 (0 + 1) ?second)"
    by (rule call_sub_node) (simp_all add: failing_index_def flat_index_def)
  ultimately have calls: "(makes_call ?fail)\<^sup>*\<^sup>* (Create_Node 0 0 ?start)
      (Create_Node 2 (0 + 1) ?second)"
    by (meson rtranclp.rtrancl_into_rtrancl rtranclp.rtrancl_refl)
  have "call_result ?fail (Create_Node 2 (0 + 1) ?second) = Inl (Cursor_Error Is_Deleted)"
    using fatal by simp
  with root calls
  have "libpff_item_tree_create (Some \<lparr>root_node = None\<rparr>) ?fail (Some []) (Some None) =
      Inl (Cursor_Error Is_Deleted)"
    using cursor_errors [THEN conjunct2, THEN conjunct2, THEN conjunct2, THEN conjunct2,
      THEN conjunct2, THEN conjunct2, THEN conjunct2] by blast
  then have "build ?fail = Inl (Cursor_Error Is_Deleted)"
    by (simp add: build_def)
  with skipped continues fatal show ?thesis by blast
qed

text \<open>
  Where the root folder already set error comes from. A build on a new tree returns it
  exactly when, in its course, a leaf with a self parented value is processed while the
  root folder slot is set: the test at the head of the root folder branch looks at the
  slot only, not at the leaf that filled it. A slot that is set keeps its content
  through every call of the builder that succeeds.
\<close>

proposition root_folder_already_set:
  "(libpff_item_tree_create (Some \<lparr>root_node = None\<rparr>) idx orphans root_folder =
        Inl Root_Folder_Already_Set)
     = (\<exists>root c. libpff_index_tree_get_root_node idx = Some root
          \<and> (makes_call idx)\<^sup>*\<^sup>* (Create_Node root 0 (start_state orphans root_folder)) c
          \<and> duplicate_root_call idx c)
   \<and> (passes_checks st d \<and> libfdata_tree_node_get_node_value idx node = Some (Some v)
        \<and> identifier v \<le> 0xFFFFFFFF \<and> self_parented v \<longrightarrow>
      (libpff_item_tree_create_leaf_node idx node d st = Inl Root_Folder_Already_Set)
        = (root_folder_item_tree_node st \<noteq> Some None))
   \<and> (root_folder_item_tree_node st = Some (Some x)
        \<and> libpff_item_tree_create_node idx node d st = Inr st' \<longrightarrow>
      root_folder_item_tree_node st' = Some (Some x))"
proof (intro conjI impI)
  show "(libpff_item_tree_create (Some \<lparr>root_node = None\<rparr>) idx orphans root_folder =
        Inl Root_Folder_Already_Set)
     = (\<exists>root c. libpff_index_tree_get_root_node idx = Some root
          \<and> (makes_call idx)\<^sup>*\<^sup>* (Create_Node root 0 (start_state orphans root_folder)) c
          \<and> duplicate_root_call idx c)"
  proof
    assume failed: "libpff_item_tree_create (Some \<lparr>root_node = None\<rparr>) idx orphans root_folder =
        Inl Root_Folder_Already_Set"
    then obtain root where root: "libpff_index_tree_get_root_node idx = Some root"
      by (auto simp: libpff_item_tree_create_def split: option.splits)
    with failed have "libpff_item_tree_create_node idx root 0 (start_state orphans root_folder) =
        Inl Root_Folder_Already_Set"
      by (simp add: create_result)
    from duplicate_root_origin(1) [OF this] root
    show "\<exists>root c. libpff_index_tree_get_root_node idx = Some root
          \<and> (makes_call idx)\<^sup>*\<^sup>* (Create_Node root 0 (start_state orphans root_folder)) c
          \<and> duplicate_root_call idx c"
      by blast
  next
    assume "\<exists>root c. libpff_index_tree_get_root_node idx = Some root
          \<and> (makes_call idx)\<^sup>*\<^sup>* (Create_Node root 0 (start_state orphans root_folder)) c
          \<and> duplicate_root_call idx c"
    then obtain root c where root: "libpff_index_tree_get_root_node idx = Some root"
      and calls: "(makes_call idx)\<^sup>*\<^sup>* (Create_Node root 0 (start_state orphans root_folder)) c"
      and dup: "duplicate_root_call idx c"
      by blast
    from makes_calls_error [OF calls duplicate_root_call_error [OF dup]] root
    show "libpff_item_tree_create (Some \<lparr>root_node = None\<rparr>) idx orphans root_folder =
        Inl Root_Folder_Already_Set"
      by (simp add: create_result)
  qed
next
  assume a: "passes_checks st d \<and> libfdata_tree_node_get_node_value idx node = Some (Some v)
        \<and> identifier v \<le> 0xFFFFFFFF \<and> self_parented v"
  then obtain t r where ptrs: "item_tree st = Some t" "root_folder_item_tree_node st = Some r"
    "0 \<le> d" "d \<le> LIBPFF_MAXIMUM_ITEM_TREE_RECURSION_DEPTH"
    by (auto elim: passes_checksE)
  from a create_leaf_node_unfold [OF ptrs, of idx node v]
  have "libpff_item_tree_create_leaf_node idx node d st =
      create_leaf_node_root_folder st r (item_descriptor_of v)" by simp
  then show "(libpff_item_tree_create_leaf_node idx node d st = Inl Root_Folder_Already_Set)
      = (root_folder_item_tree_node st \<noteq> Some None)"
    by (auto simp: ptrs(2) create_leaf_node_root_folder_def split: option.splits sum.splits)
next
  assume "root_folder_item_tree_node st = Some (Some x)
        \<and> libpff_item_tree_create_node idx node d st = Inr st'"
  then show "root_folder_item_tree_node st' = Some (Some x)"
    by (blast intro: leaf_steps_root_folder_kept build_steps(1))
qed

lemma root_folder_already_set_example:
  "libpff_item_tree_create (Some \<lparr>root_node = None\<rparr>) (flat_index [leaf 1 1, leaf 2 2])
       (Some []) (Some None) = Inl Root_Folder_Already_Set
   \<and> libpff_item_tree_create_leaf_node (flat_index [leaf 1 1, leaf 2 2]) 2 1
       (built_state [item_node 1 []] [] (Some 1)) = Inl Root_Folder_Already_Set
   \<and> libpff_item_tree_create_leaf_node (flat_index [leaf 1 1, leaf 2 2]) 2 1
       (built_state [] [] None) \<noteq> Inl Root_Folder_Already_Set
   \<and> libpff_item_tree_create_node (flat_index [leaf 1 1, leaf 2 1]) 2 1
       (built_state [item_node 1 []] [] (Some 1)) =
       Inr (built_state [item_node 1 [item_node 2 []]] [] (Some 1))"
proof -
  let ?idx = "flat_index [leaf 1 1, leaf 2 2]"
  let ?start = "start_state (Some []) (Some None)"
  let ?second = "built_state [item_node 1 []] [] (Some 1)"
  have root: "libpff_index_tree_get_root_node ?idx = Some 0"
    by (simp add: flat_index_def)
  have "makes_call ?idx (Create_Node 0 0 ?start) (Create_Node_Sub_Nodes 0 0 2 0 ?start)"
    by (rule call_sub_nodes) (simp_all add: flat_index_def passes_checks_def
        start_state_def LIBPFF_MAXIMUM_ITEM_TREE_RECURSION_DEPTH_def)
  moreover have "makes_call ?idx (Create_Node_Sub_Nodes 0 0 2 0 ?start)
      (Create_Node_Sub_Nodes 0 (0 + 1) 2 0 ?second)"
  proof (rule call_next_sub_node)
    show "(0::int) < 2" by simp
    show "libfdata_tree_node_get_sub_node_by_index ?idx 0 0 = Some 1"
      by (simp add: flat_index_def)
    show "libpff_item_tree_create_node ?idx 1 (0 + 1) ?start = Inr ?second"
      by code_simp
  qed
  moreover have "makes_call ?idx (Create_Node_Sub_Nodes 0 (0 + 1) 2 0 ?second)
      (Create_Node 2 (0 + 1) ?second)"
    by (rule call_sub_node) (simp_all add: flat_index_def)
  moreover have "makes_call ?idx (Create_Node 2 (0 + 1) ?second)
      (Create_Leaf_Node 2 (0 + 1) ?second)"
    by (rule call_leaf_node [where n = 0]) (simp_all add: flat_index_def passes_checks_def
        built_state_def LIBPFF_MAXIMUM_ITEM_TREE_RECURSION_DEPTH_def)
  ultimately have calls: "(makes_call ?idx)\<^sup>*\<^sup>* (Create_Node 0 0 ?start)
      (Create_Leaf_Node 2 (0 + 1) ?second)"
    by (meson rtranclp.rtrancl_into_rtrancl rtranclp.rtrancl_refl)
  have dup: "duplicate_root_call ?idx (Create_Leaf_Node 2 (0 + 1) ?second)"
    by code_simp
  from root_folder_already_set [THEN conjunct1, of ?idx "Some []" "Some None"] root calls dup
  have whole: "libpff_item_tree_create (Some \<lparr>root_node = None\<rparr>) ?idx (Some []) (Some None) =
      Inl Root_Folder_Already_Set"
    by blast
  have set: "passes_checks ?second 1
      \<and> libfdata_tree_node_get_node_value ?idx 2 = Some (Some (leaf 2 2))
      \<and> identifier (leaf 2 2) \<le> 0xFFFFFFFF \<and> self_parented (leaf 2 2)"
    by code_simp
  have "root_folder_item_tree_node ?second \<noteq> Some None"
    by (simp add: built_state_def)
  with root_folder_already_set [THEN conjunct2, THEN conjunct1, rule_format, OF set]
  have leaf: "libpff_item_tree_create_leaf_node ?idx 2 1 ?second = Inl Root_Folder_Already_Set"
    by blast
  have unset: "passes_checks (built_state [] [] None) 1
      \<and> libfdata_tree_node_get_node_value ?idx 2 = Some (Some (leaf 2 2))
      \<and> identifier (leaf 2 2) \<le> 0xFFFFFFFF \<and> self_parented (leaf 2 2)"
    by code_simp
  have "root_folder_item_tree_node (built_state [] [] None) = Some None"
    by (simp add: built_state_def)
  with root_folder_already_set [THEN conjunct2, THEN conjunct1, rule_format, OF unset]
  have first: "libpff_item_tree_create_leaf_node ?idx 2 1 (built_state [] [] None) \<noteq>
      Inl Root_Folder_Already_Set"
    by blast
  have kept: "root_folder_item_tree_node ?second = Some (Some 1)
      \<and> libpff_item_tree_create_node (flat_index [leaf 1 1, leaf 2 1]) 2 1 ?second =
          Inr (built_state [item_node 1 [item_node 2 []]] [] (Some 1))"
    by code_simp
  from root_folder_already_set [THEN conjunct2, THEN conjunct2, rule_format, OF kept]
  have "root_folder_item_tree_node (built_state [item_node 1 [item_node 2 []]] [] (Some 1)) =
      Some (Some 1)" .
  with whole leaf first kept show ?thesis by blast
qed

text \<open>
  C5. With two self parented leaves, (1, 1) and (2, 2), the build fails with the root
  folder already set error on the second. The error does not need a second self
  parented leaf: in the index with the leaves (4, 1) and (1, 1) only the second leaf is
  self parented. The read-ahead for the leaf (4, 1) builds it as the root folder, the
  walk reaches it again, and the build fails on the one self parented leaf there is; in
  the order (1, 1), (4, 1) the same leaves build. A leaf that is not self parented,
  built by a read-ahead and reached again by the walk, is skipped without error: the
  leaf (3, 1) in the index with the leaves (1, 1), (4, 3) and (3, 1).
\<close>

theorem root_folder_built_by_read_ahead:
  "build (flat_index [leaf 4 1, leaf 1 1]) = Inl Root_Folder_Already_Set
   \<and> filter self_parented [leaf 4 1, leaf 1 1] = [leaf 1 1]
   \<and> libpff_item_tree_create_leaf_node (flat_index [leaf 4 1, leaf 1 1]) 1 1
        (built_state [] [] None) = Inr (built_state [item_node 1 [item_node 4 []]] [] (Some 1))
   \<and> libpff_item_tree_create_leaf_node (flat_index [leaf 4 1, leaf 1 1]) 2 1
        (built_state [item_node 1 [item_node 4 []]] [] (Some 1)) = Inl Root_Folder_Already_Set
   \<and> build (flat_index [leaf 1 1, leaf 4 1]) =
        Inr (built_state [item_node 1 [item_node 4 []]] [] (Some 1))
   \<and> build (flat_index [leaf 1 1, leaf 4 3, leaf 3 1]) =
        Inr (built_state [item_node 1 [item_node 3 [item_node 4 []]]] [] (Some 1))
   \<and> libpff_item_tree_create_leaf_node (flat_index [leaf 1 1, leaf 4 3, leaf 3 1]) 3 1
        (built_state [item_node 1 [item_node 3 [item_node 4 []]]] [] (Some 1)) =
        Inr (built_state [item_node 1 [item_node 3 [item_node 4 []]]] [] (Some 1))
   \<and> build (flat_index [leaf 1 1, leaf 2 2]) = Inl Root_Folder_Already_Set"
  by code_simp

section \<open>The search by identifier is a pre-order search\<close>

lemma find_map_append:
  "find P (map f xs @ ys) =
     (case find (P \<circ> f) xs of None \<Rightarrow> find P ys | Some x \<Rightarrow> Some (f x))"
  by (induction xs) auto

lemma search_stops_descend:
  "search_stops d ident \<circ> (\<lambda>entry. (i # fst entry, snd entry)) = search_stops (d + 1) ident"
  by (auto simp: search_stops_def fun_eq_iff)

lemma search_sub_nodes_preorder:
  assumes "\<And>n d. n \<in> set subs \<Longrightarrow> 0 \<le> d \<Longrightarrow>
             libpff_item_tree_get_tree_node_by_identifier (Some n) ident (Some None) d =
               search_outcome d (find (search_stops d ident) (preorder n))"
    and "0 \<le> d"
  shows "get_tree_node_by_identifier_sub_nodes subs i ident (Some None) d =
           search_outcome d (find (search_stops d ident) (preorder_sub_nodes subs i))"
  using assms
proof (induction subs arbitrary: i)
  case Nil
  then show ?case by (simp add: search_outcome_def)
next
  case (Cons c rest)
  have sub: "libpff_item_tree_get_tree_node_by_identifier (Some c) ident (Some None) (d + 1) =
      search_outcome (d + 1) (find (search_stops (d + 1) ident) (preorder c))"
    using Cons.prems by simp
  have rest: "get_tree_node_by_identifier_sub_nodes rest (Suc i) ident (Some None) d =
      search_outcome d (find (search_stops d ident) (preorder_sub_nodes rest (Suc i)))"
    using Cons.prems by (intro Cons.IH) simp_all
  show ?case
    by (cases "find (search_stops (d + 1) ident) (preorder c)")
       (simp_all add: sub rest find_map_append search_stops_descend search_outcome_def)
qed

lemma search_preorder:
  "has_value n \<Longrightarrow> tree_sorted n \<Longrightarrow> 0 \<le> d \<Longrightarrow>
   libpff_item_tree_get_tree_node_by_identifier (Some n) ident (Some None) d =
     search_outcome d (find (search_stops d ident) (preorder n))"
proof (induction n arbitrary: d)
  case (Tree_Node v subs)
  from Tree_Node.prems(1) obtain x where v: "v = Some x"
    by (auto simp: has_value_def split: option.splits)
  have children: "has_value c \<and> tree_sorted c" if "c \<in> set subs" for c
    using Tree_Node.prems(2) that by (auto simp: sub_nodes_ascending_def list_all_iff)
  have subs: "get_tree_node_by_identifier_sub_nodes subs 0 ident (Some None) d =
      search_outcome d (find (search_stops d ident) (preorder_sub_nodes subs 0))"
    using Tree_Node.IH children Tree_Node.prems(3) by (intro search_sub_nodes_preorder) auto
  have here: "search_stops d ident ([], Tree_Node (Some x) subs) =
      (LIBPFF_MAXIMUM_ITEM_TREE_RECURSION_DEPTH < d \<or> descriptor_identifier x = ident)"
    by (simp add: search_stops_def has_identifier_def)
  from Tree_Node.prems(3) show ?case
    by (auto simp: v subs here search_outcome_def)
qed

lemma preorder_paths:
  "entry \<in> set (preorder t) \<Longrightarrow> tree_node_at t (fst entry) = Some (snd entry)"
  "entry \<in> set (preorder_sub_nodes subs i) \<Longrightarrow>
     \<exists>k p. fst entry = (i + k) # p \<and> k < length subs \<and> tree_node_at (subs ! k) p = Some (snd entry)"
proof (induction t and subs i arbitrary: entry and entry rule: preorder_preorder_sub_nodes.induct)
  case (1 v subs)
  show ?case
  proof (cases "entry = ([], Tree_Node v subs)")
    case True
    then show ?thesis by simp
  next
    case False
    with "1.prems" have "entry \<in> set (preorder_sub_nodes subs 0)" by simp
    from "1.IH" [OF this] show ?thesis by auto
  qed
next
  case (2 i)
  then show ?case by simp
next
  case (3 n rest i)
  from "3.prems" consider
    (first) e where "e \<in> set (preorder n)" "entry = (i # fst e, snd e)"
    | (later) "entry \<in> set (preorder_sub_nodes rest (i + 1))"
    by auto
  then show ?case
  proof cases
    case first
    from "3.IH"(1) [OF first(1)] first(2) show ?thesis
      by (intro exI [of _ 0] exI [of _ "fst e"]) simp
  next
    case later
    from "3.IH"(2) [OF later] obtain k p where
      "fst entry = (i + 1 + k) # p" "k < length rest" "tree_node_at (rest ! k) p = Some (snd entry)"
      by blast
    then show ?thesis
      by (intro exI [of _ "Suc k"] exI [of _ p]) simp
  qed
qed

lemma search_found_node:
  assumes "has_value root" and "tree_sorted root"
    and "libpff_item_tree_get_tree_node_by_identifier (Some root) ident (Some None) 0 = Inr (Some p)"
  shows "\<exists>n. tree_node_at root p = Some n \<and> has_identifier n ident"
proof -
  from assms obtain entry where
    found: "find (search_stops 0 ident) (preorder root) = Some entry"
    and p: "fst entry = p"
    and depth: "\<not> 0 + int (length (fst entry)) > LIBPFF_MAXIMUM_ITEM_TREE_RECURSION_DEPTH"
    by (auto simp: search_preorder search_outcome_def split: option.splits if_splits)
  from found have "entry \<in> set (preorder root)" and "search_stops 0 ident entry"
    by (auto simp: find_Some_iff in_set_conv_nth)
  with depth preorder_paths(1) [of entry root] p show ?thesis
    by (auto simp: search_stops_def)
qed

lemma search_within_bound:
  assumes "has_value root" and "tree_sorted root" and "within_depth_bound root"
  shows "libpff_item_tree_get_tree_node_by_identifier (Some root) ident (Some None) 0 =
           Inr (map_option fst (find (matches ident) (preorder root)))"
proof -
  from assms(3) have "\<forall>entry \<in> set (preorder root).
      search_stops 0 ident entry = matches ident entry
      \<and> \<not> 0 + int (length (fst entry)) > LIBPFF_MAXIMUM_ITEM_TREE_RECURSION_DEPTH"
    by (auto simp: within_depth_bound_def list_all_iff search_stops_def matches_def)
  then have same: "find (search_stops 0 ident) (preorder root) = find (matches ident) (preorder root)"
    and inside: "\<forall>entry \<in> set (preorder root).
      \<not> 0 + int (length (fst entry)) > LIBPFF_MAXIMUM_ITEM_TREE_RECURSION_DEPTH"
    by (auto intro: find_cong)
  show ?thesis
  proof (cases "find (matches ident) (preorder root)")
    case None
    then show ?thesis
      by (simp add: search_preorder [OF assms(1,2)] same search_outcome_def)
  next
    case (Some entry)
    then have "entry \<in> set (preorder root)"
      by (auto simp: find_Some_iff in_set_conv_nth)
    with inside Some show ?thesis
      by (simp add: search_preorder [OF assms(1,2)] same search_outcome_def)
  qed
qed

lemma get_node_by_identifier_root:
  "item_tree_root_node st = Some root \<Longrightarrow>
   libpff_item_tree_get_node_by_identifier (item_tree st) ident result =
     libpff_item_tree_get_tree_node_by_identifier (Some root) ident result 0"
  by (auto simp: item_tree_root_node_def libpff_item_tree_get_node_by_identifier_def
           split: option.splits)

lemma has_identifier_value: "has_identifier n ident \<Longrightarrow> has_value n"
  by (auto simp: has_identifier_def has_value_def split: option.splits)

text \<open>
  C7 as the code has it. On the tree of a successful build the search by identifier
  walks the nodes in pre-order and stops at the first node that is either deeper than
  the recursion bound, where it returns the out of bounds error, or carries the
  searched identifier, which it returns. So the search for identifier 0 returns the
  synthetic root; a node it returns carries the searched identifier; and when no node
  of the tree is deeper than the bound it returns the first node in pre-order with the
  searched identifier, hence a node for every identifier present in the tree.
\<close>

theorem find_first_in_preorder:
  assumes "libpff_item_tree_create tree idx orphans root_folder = Inr st"
  shows "\<exists>root. item_tree_root_node st = Some root
     \<and> libpff_item_tree_get_node_by_identifier (item_tree st) ident (Some None) =
         search_outcome 0 (find (search_stops 0 ident) (preorder root))
     \<and> libpff_item_tree_get_node_by_identifier (item_tree st) 0 (Some None) = Inr (Some [])
     \<and> (\<forall>p. libpff_item_tree_get_node_by_identifier (item_tree st) ident (Some None) = Inr (Some p)
            \<longrightarrow> (\<exists>n. tree_node_at root p = Some n \<and> has_identifier n ident))
     \<and> (within_depth_bound root \<longrightarrow>
          libpff_item_tree_get_node_by_identifier (item_tree st) ident (Some None) =
            Inr (map_option fst (find (matches ident) (preorder root))))
     \<and> (within_depth_bound root \<and> list_ex (matches ident) (preorder root) \<longrightarrow>
          (\<exists>p n. libpff_item_tree_get_node_by_identifier (item_tree st) ident (Some None) =
                   Inr (Some p)
                 \<and> tree_node_at root p = Some n \<and> has_identifier n ident))"
proof -
  from create_invariant [OF assms] obtain root where root: "item_tree_root_node st = Some root"
    and zero: "has_identifier root 0" and sorted: "tree_sorted root"
    by (auto simp: tree_invariant_def split: option.splits)
  from zero have valued: "has_value root" by (rule has_identifier_value)
  note search = get_node_by_identifier_root [OF root]
  have exact: "libpff_item_tree_get_node_by_identifier (item_tree st) ident (Some None) =
      search_outcome 0 (find (search_stops 0 ident) (preorder root))"
    by (simp add: search search_preorder [OF valued sorted])
  have synthetic: "libpff_item_tree_get_node_by_identifier (item_tree st) 0 (Some None) =
      Inr (Some [])"
    using zero
    by (cases root) (auto simp: search has_identifier_def
          LIBPFF_MAXIMUM_ITEM_TREE_RECURSION_DEPTH_def split: option.splits)
  have node: "\<exists>n. tree_node_at root p = Some n \<and> has_identifier n ident"
    if "libpff_item_tree_get_node_by_identifier (item_tree st) ident (Some None) = Inr (Some p)"
    for p
    using that search_found_node [OF valued sorted] by (simp add: search)
  have first: "libpff_item_tree_get_node_by_identifier (item_tree st) ident (Some None) =
      Inr (map_option fst (find (matches ident) (preorder root)))"
    if "within_depth_bound root"
    using search_within_bound [OF valued sorted that] by (simp add: search)
  have present: "\<exists>p n. libpff_item_tree_get_node_by_identifier (item_tree st) ident (Some None) =
      Inr (Some p) \<and> tree_node_at root p = Some n \<and> has_identifier n ident"
    if "within_depth_bound root \<and> list_ex (matches ident) (preorder root)"
  proof -
    from that obtain entry where "find (matches ident) (preorder root) = Some entry"
      by (cases "find (matches ident) (preorder root)")
         (auto simp: find_None_iff list_ex_iff)
    with first that
    have "libpff_item_tree_get_node_by_identifier (item_tree st) ident (Some None) =
        Inr (Some (fst entry))" by simp
    with node show ?thesis by blast
  qed
  from root exact synthetic node first present show ?thesis by blast
qed

theorem find_first_in_preorder_witness:
  "build (flat_index [leaf 1 1, leaf 2 1, leaf 3 1, leaf 4 2]) =
     Inr (built_state [item_node 1 [item_node 2 [item_node 4 []], item_node 3 []]] [] (Some 1))
   \<and> libpff_item_tree_get_node_by_identifier
       (item_tree (built_state [item_node 1 [item_node 2 [item_node 4 []], item_node 3 []]] []
          (Some 1))) 3 (Some None) = Inr (Some [0, 1])
   \<and> within_depth_bound (item_node 0 [item_node 1 [item_node 2 [item_node 4 []], item_node 3 []]])
   \<and> list_ex (matches 3)
       (preorder (item_node 0 [item_node 1 [item_node 2 [item_node 4 []], item_node 3 []]]))"
proof -
  let ?subs = "[item_node 1 [item_node 2 [item_node 4 []], item_node 3 []]]"
  let ?st = "built_state ?subs [] (Some 1)"
  have b: "build (flat_index [leaf 1 1, leaf 2 1, leaf 3 1, leaf 4 2]) = Inr ?st"
    by code_simp
  then have "libpff_item_tree_create (Some \<lparr>root_node = None\<rparr>)
      (flat_index [leaf 1 1, leaf 2 1, leaf 3 1, leaf 4 2]) (Some []) (Some None) = Inr ?st"
    by (simp add: build_def)
  from find_first_in_preorder [OF this, of 3] obtain root where
    root: "item_tree_root_node ?st = Some root"
    and first: "within_depth_bound root \<longrightarrow>
          libpff_item_tree_get_node_by_identifier (item_tree ?st) 3 (Some None) =
            Inr (map_option fst (find (matches 3) (preorder root)))"
    by blast
  from root have r: "root = item_node 0 ?subs"
    by (simp add: built_state_def item_tree_root_node_def)
  have bound: "within_depth_bound (item_node 0 ?subs)" by code_simp
  have ex: "list_ex (matches 3) (preorder (item_node 0 ?subs))" by code_simp
  have "map_option fst (find (matches 3) (preorder (item_node 0 ?subs))) = Some [0, 1]"
    by code_simp
  with first bound r
  have "libpff_item_tree_get_node_by_identifier (item_tree ?st) 3 (Some None) = Inr (Some [0, 1])"
    by simp
  with b bound ex show ?thesis by blast
qed

section \<open>A tree deeper than the recursion bound\<close>

lemma length_chain [simp]: "length (chain n) = n"
  by (induction n) simp_all

lemma nth_chain:
  "k < n \<Longrightarrow> chain n ! k = leaf (of_nat (Suc k)) (if k = 0 then 1 else of_nat k)"
  by (induction n) (auto simp: nth_append less_Suc_eq)

lemma of_nat_32_eq:
  "a < 2 ^ 32 \<Longrightarrow> b < 2 ^ 32 \<Longrightarrow> ((of_nat a :: 32 word) = of_nat b) = (a = b)"
  by (simp add: word_of_nat_eq_iff take_bit_nat_eq_self)

lemma chain_leaf_value:
  assumes "k < 2 ^ 31"
  shows "identifier (leaf (of_nat (Suc k)) p) \<le> 0xFFFFFFFF"
    and "(ucast (identifier (leaf (of_nat (Suc k)) p)) :: 32 word) = of_nat (Suc k)"
proof -
  from assms have small: "Suc k < 2 ^ 32" by simp
  from small have "Suc k < 2 ^ 64" by simp
  then have "unat (of_nat (Suc k) :: 64 word) = Suc k"
    unfolding unat_of_nat by simp
  then show "identifier (leaf (of_nat (Suc k)) p) \<le> 0xFFFFFFFF"
    using small by (simp add: leaf_def word_le_nat_alt del: of_nat_Suc)
  from small have "take_bit 64 (Suc k) = Suc k"
    by (intro take_bit_nat_eq_self) simp
  then show "(ucast (identifier (leaf (of_nat (Suc k)) p)) :: 32 word) = of_nat (Suc k)"
    by (simp add: leaf_def unsigned_of_nat del: of_nat_Suc)
qed

lemma search_chain:
  "j + k < 2 ^ 32 \<Longrightarrow> m < k \<Longrightarrow> 0 \<le> d \<Longrightarrow>
   d + int m + 1 \<le> LIBPFF_MAXIMUM_ITEM_TREE_RECURSION_DEPTH \<Longrightarrow>
   get_tree_node_by_identifier_sub_nodes (chain_from j k) i (of_nat (j + m)) (Some None) d =
     Inr (Some (i # replicate m 0))"
proof (induction k arbitrary: j m d i)
  case 0
  then show ?case by simp
next
  case (Suc k)
  show ?case
  proof (cases m)
    case 0
    with Suc.prems show ?thesis
      by (simp add: item_node_def libpff_item_descriptor_initialize_def)
  next
    case (Suc m')
    with Suc.prems have ne: "(of_nat j :: 32 word) \<noteq> of_nat (j + m)"
      by (subst of_nat_32_eq) simp_all
    from Suc.prems \<open>m = Suc m'\<close>
    have "get_tree_node_by_identifier_sub_nodes (chain_from (Suc j) k) 0
        (of_nat (Suc j + m')) (Some None) (d + 1) = Inr (Some (0 # replicate m' 0))"
      by (intro Suc.IH) simp_all
    with Suc.prems ne \<open>m = Suc m'\<close> show ?thesis
      by (simp add: item_node_def libpff_item_descriptor_initialize_def)
  qed
qed

lemma search_chain_too_deep:
  "0 \<le> d \<Longrightarrow> d \<le> LIBPFF_MAXIMUM_ITEM_TREE_RECURSION_DEPTH \<Longrightarrow>
   LIBPFF_MAXIMUM_ITEM_TREE_RECURSION_DEPTH < d + int k \<Longrightarrow>
   \<forall>m. d + int m + 1 \<le> LIBPFF_MAXIMUM_ITEM_TREE_RECURSION_DEPTH \<longrightarrow> of_nat (j + m) \<noteq> ident \<Longrightarrow>
   get_tree_node_by_identifier_sub_nodes (chain_from j k) i ident result d =
     Inl Recursion_Depth_Out_Of_Bounds"
proof (induction k arbitrary: j d i)
  case 0
  then show ?case by simp
next
  case (Suc k)
  show ?case
  proof (cases "d + 1 \<le> LIBPFF_MAXIMUM_ITEM_TREE_RECURSION_DEPTH")
    case False
    with Suc.prems show ?thesis
      by (simp add: item_node_def)
  next
    case True
    with Suc.prems(4) [rule_format, of 0] have ne: "(of_nat j :: 32 word) \<noteq> ident"
      by simp
    have "get_tree_node_by_identifier_sub_nodes (chain_from (Suc j) k) 0 ident result (d + 1) =
        Inl Recursion_Depth_Out_Of_Bounds"
    proof (rule Suc.IH)
      show "0 \<le> d + 1" using Suc.prems by simp
      show "d + 1 \<le> LIBPFF_MAXIMUM_ITEM_TREE_RECURSION_DEPTH" using True .
      show "LIBPFF_MAXIMUM_ITEM_TREE_RECURSION_DEPTH < d + 1 + int k" using Suc.prems by simp
      show "\<forall>m. d + 1 + int m + 1 \<le> LIBPFF_MAXIMUM_ITEM_TREE_RECURSION_DEPTH
          \<longrightarrow> of_nat (Suc j + m) \<noteq> ident"
      proof (intro allI impI)
        fix m
        assume "d + 1 + int m + 1 \<le> LIBPFF_MAXIMUM_ITEM_TREE_RECURSION_DEPTH"
        then have "d + int (Suc m) + 1 \<le> LIBPFF_MAXIMUM_ITEM_TREE_RECURSION_DEPTH" by simp
        with Suc.prems(4) have "of_nat (j + Suc m) \<noteq> ident" by blast
        then show "of_nat (Suc j + m) \<noteq> ident" by simp
      qed
    qed
    with Suc.prems True ne show ?thesis
      by (simp add: item_node_def libpff_item_descriptor_initialize_def)
  qed
qed

lemma at_chain:
  "m < k \<Longrightarrow>
   tree_node_at (Tree_Node v (chain_from j k)) (replicate (Suc m) 0) =
     Some (item_node (of_nat (j + m)) (chain_from (Suc (j + m)) (k - Suc m)))"
proof (induction m arbitrary: j k v)
  case 0
  then obtain k' where "k = Suc k'" by (cases k) auto
  then show ?case by simp
next
  case (Suc m)
  then obtain k' where k: "k = Suc k'" and m: "m < k'" by (cases k) auto
  from Suc.IH [OF m, of "Some (libpff_item_descriptor_initialize (of_nat j) 0 0 0)" "Suc j"]
  show ?case by (simp add: k item_node_def)
qed

lemma replace_chain:
  "1 \<le> k \<Longrightarrow>
   tree_node_replace (Tree_Node v (chain_from j k)) (replicate k 0)
       (item_node (of_nat (j + k - 1)) [item_node (of_nat (j + k)) []]) =
     Tree_Node v (chain_from j (Suc k))"
proof (induction k arbitrary: j v)
  case 0
  then show ?case by simp
next
  case (Suc k)
  show ?case
  proof (cases k)
    case 0
    then show ?thesis by simp
  next
    case (Suc k')
    then have "1 \<le> k" by simp
    from Suc.IH [OF this, of "Some (libpff_item_descriptor_initialize (of_nat j) 0 0 0)" "Suc j"]
    show ?thesis by (simp add: item_node_def)
  qed
qed

lemma chain_index_leaf:
  assumes "k < N"
  shows "libfdata_tree_node_get_number_of_sub_nodes (flat_index (chain N)) (Suc k) = Some 0"
    and "libfdata_tree_node_is_deleted (flat_index (chain N)) (Suc k) = Some False"
    and "libfdata_tree_node_is_leaf (flat_index (chain N)) (Suc k) = Some True"
    and "libfdata_tree_node_get_node_value (flat_index (chain N)) (Suc k) =
           Some (Some (leaf (of_nat (Suc k)) (if k = 0 then 1 else of_nat k)))"
  using assms by (simp_all add: flat_index_def nth_chain del: of_nat_Suc)

lemma chain_first_leaf:
  assumes "1 \<le> N"
  shows "libpff_item_tree_create_node (flat_index (chain N)) 1 1 (built_state [] [] None) =
           Inr (built_state (chain_from 1 1) [] (Some 1))"
proof -
  let ?idx = "flat_index (chain N)"
  let ?v = "leaf 1 1"
  from assms have zero: "0 < N" by simp
  have v: "libfdata_tree_node_get_node_value ?idx 1 = Some (Some ?v)"
    using chain_index_leaf(4) [OF zero] by simp
  have small: "identifier ?v \<le> 0xFFFFFFFF" and self: "self_parented ?v"
    by (simp_all add: leaf_def self_parented_def)
  have "libpff_item_tree_create_node ?idx 1 1 (built_state [] [] None) =
      libpff_item_tree_create_leaf_node ?idx 1 1 (built_state [] [] None)"
    using chain_index_leaf(1-3) [OF zero]
    by (intro create_node_leaf [OF built_state_pointers(1,2) depth_one]) simp_all
  also have "\<dots> = create_leaf_node_root_folder (built_state [] [] None) None (item_descriptor_of ?v)"
    by (subst create_leaf_node_unfold [OF built_state_pointers(1,2) depth_one v small])
       (simp add: self)
  also have "\<dots> = Inr (built_state (chain_from 1 1) [] (Some 1))"
    by code_simp
  finally show ?thesis .
qed

lemma chain_next_leaf:
  assumes "1 \<le> k" and "k < N" and "N \<le> 257"
  shows "libpff_item_tree_create_node (flat_index (chain N)) (Suc k) 1
             (built_state (chain_from 1 k) [] (Some 1)) =
           Inr (built_state (chain_from 1 (Suc k)) [] (Some 1))"
proof -
  let ?idx = "flat_index (chain N)"
  let ?st = "built_state (chain_from 1 k) [] (Some 1)"
  let ?v = "leaf (of_nat (Suc k)) (of_nat k)"
  let ?d = "item_descriptor_of ?v"
  from assms have k: "k < 2 ^ 31" "k \<le> 256" by simp_all
  from assms have v: "libfdata_tree_node_get_node_value ?idx (Suc k) = Some (Some ?v)"
    using chain_index_leaf(4) [OF assms(2)] by (simp del: of_nat_Suc)
  note leaf_value = chain_leaf_value [OF k(1), of "of_nat k"]
  have parent: "parent_identifier ?v = of_nat k" by (simp add: leaf_def)
  have "(of_nat (Suc k) :: 32 word) \<noteq> of_nat k"
    using k(1) by (subst of_nat_32_eq) simp_all
  then have other: "\<not> self_parented ?v"
    by (simp add: self_parented_def leaf_value(2) parent del: of_nat_Suc)
  obtain m where m: "k = Suc m" using assms(1) by (cases k) auto
  have e: "1 + m = k" "0 # replicate m (0::nat) = replicate k 0"
    using m by simp_all
  have "get_tree_node_by_identifier_sub_nodes (chain_from 1 k) 0 (of_nat (1 + m))
      (Some None) 0 = Inr (Some (0 # replicate m 0))"
    using k m by (intro search_chain)
      (simp_all add: LIBPFF_MAXIMUM_ITEM_TREE_RECURSION_DEPTH_def)
  then have sub: "get_tree_node_by_identifier_sub_nodes (chain_from 1 k) 0 (of_nat k)
      (Some None) 0 = Inr (Some (replicate k 0))"
    unfolding e .
  have root: "(0 :: 32 word) \<noteq> of_nat k"
    using k(1) assms(1) of_nat_32_eq [of 0 k] by simp
  have found: "libpff_item_tree_get_tree_node_by_identifier (item_tree_root_node ?st)
      (parent_identifier ?v) (Some None) 0 = Inr (Some (replicate k 0))"
    using root sub
    by (simp add: built_state_pointers parent item_node_def
          libpff_item_descriptor_initialize_def LIBPFF_MAXIMUM_ITEM_TREE_RECURSION_DEPTH_def
          del: chain_from.simps(2) of_nat_Suc)
  have at: "tree_node_at (item_node 0 (chain_from 1 k)) (replicate k 0) =
      Some (item_node (of_nat k) [])"
    using at_chain [of m k _ 1] m by (simp add: item_node_def)
  have narrow: "(ucast (of_nat (Suc k) :: 64 word) :: 32 word) = of_nat (Suc k)"
    using leaf_value(2) by (simp add: leaf_def del: of_nat_Suc)
  have ins: "libcdata_tree_node_insert_value (item_node (of_nat k) []) ?d =
      Inr (Some (item_node (of_nat k) [item_node (of_nat (Suc k)) []]))"
    by (simp add: libcdata_tree_node_insert_value_def libcdata_tree_node_insert_node_def
          item_node_def item_descriptor_of_def narrow leaf_def del: of_nat_Suc)
  have rep: "tree_node_replace (item_node 0 (chain_from 1 k)) (replicate k 0)
      (item_node (of_nat k) [item_node (of_nat (Suc k)) []]) = item_node 0 (chain_from 1 (Suc k))"
    using replace_chain [OF assms(1), of _ 1] by (simp add: item_node_def del: chain_from.simps(2))
  have "libpff_item_tree_create_node ?idx (Suc k) 1 ?st =
      libpff_item_tree_create_leaf_node ?idx (Suc k) 1 ?st"
    using chain_index_leaf(1-3) [OF assms(2)]
    by (intro create_node_leaf [OF built_state_pointers(1,2) depth_one]) simp_all
  also have "\<dots> = create_leaf_node_insert ?st (replicate k 0) ?d"
    by (subst create_leaf_node_unfold [OF built_state_pointers(1,2) depth_one v leaf_value(1)])
       (simp only: other found if_False sum.case option.case)
  also have "\<dots> = Inr (built_state (chain_from 1 (Suc k)) [] (Some 1))"
    by (simp only: create_leaf_node_insert_def built_state_pointers at ins rep
          option.case sum.case built_state_set_root)
  finally show ?thesis .
qed

lemma chain_loop:
  assumes "N \<le> 257"
  shows "1 \<le> i \<Longrightarrow> i \<le> N \<Longrightarrow> sub_node_index = int i \<Longrightarrow>
     create_node_sub_nodes (flat_index (chain N)) 0 sub_node_index (int N) 0
         (built_state (chain_from 1 i) [] (Some 1)) =
       Inr (built_state (chain_from 1 N) [] (Some 1))"
proof (induction "N - i" arbitrary: i sub_node_index)
  case 0
  then have "i = N" by simp
  with "0.prems" show ?case
    by (simp add: create_node_sub_nodes.simps [of _ _ "int N" "int N"])
next
  case (Suc n)
  then have i: "i < N" "1 \<le> i" by simp_all
  have sub: "libfdata_tree_node_get_sub_node_by_index (flat_index (chain N)) 0 sub_node_index =
      Some (Suc i)"
    using i Suc.prems by (simp add: flat_index_def)
  have rest: "create_node_sub_nodes (flat_index (chain N)) 0 (sub_node_index + 1) (int N) 0
      (built_state (chain_from 1 (Suc i)) [] (Some 1)) =
      Inr (built_state (chain_from 1 N) [] (Some 1))"
    using Suc.hyps(2) i Suc.prems by (intro Suc.hyps(1)) simp_all
  have less: "sub_node_index < int N" using i Suc.prems by simp
  have first: "libpff_item_tree_create_node (flat_index (chain N)) (Suc i) (0 + 1)
      (built_state (chain_from 1 i) [] (Some 1)) =
      Inr (built_state (chain_from 1 (Suc i)) [] (Some 1))"
    using chain_next_leaf [OF i(2,1) assms] by simp
  show ?case
    by (subst create_node_sub_nodes.simps) (simp only: less sub first rest if_True
          option.case sum.case)
qed

lemma build_chain:
  assumes "1 \<le> N" and "N \<le> 257"
  shows "build (flat_index (chain N)) = Inr (built_state (chain_from 1 N) [] (Some 1))"
proof -
  let ?idx = "flat_index (chain N)"
  have start: "item_tree (built_state [] [] None) = Some \<lparr>root_node = Some (item_node 0 [])\<rparr>"
      "root_folder_item_tree_node (built_state [] [] None) = Some None"
    by (simp_all add: built_state_def)
  have sub: "libfdata_tree_node_get_sub_node_by_index ?idx 0 0 = Some 1"
    using assms by (simp add: flat_index_def)
  have "build ?idx = libpff_item_tree_create_node ?idx 0 0 (built_state [] [] None)"
    by (simp add: build_def libpff_item_tree_create_def flat_index_def built_state_def
          item_node_def)
  also have "\<dots> = create_node_sub_nodes ?idx 0 0 (int N) 0 (built_state [] [] None)"
    by (simp add: libpff_item_tree_create_node.simps [of ?idx 0 0] start
          LIBPFF_MAXIMUM_ITEM_TREE_RECURSION_DEPTH_def)
       (simp add: flat_index_def)
  also have "\<dots> = create_node_sub_nodes ?idx 0 (0 + 1) (int N) 0
      (built_state (chain_from 1 1) [] (Some 1))"
  proof -
    have less: "(0::int) < int N" using assms by simp
    have first: "libpff_item_tree_create_node ?idx 1 (0 + 1) (built_state [] [] None) =
        Inr (built_state (chain_from 1 1) [] (Some 1))"
      using chain_first_leaf [OF assms(1)] by simp
    show ?thesis
      by (subst create_node_sub_nodes.simps) (simp only: less sub first if_True
            option.case sum.case)
  qed
  also have "\<dots> = Inr (built_state (chain_from 1 N) [] (Some 1))"
    using assms by (intro chain_loop) simp_all
  finally show ?thesis .
qed

text \<open>
  The claim as stated fails: the build of the chain of 257 leaves succeeds, since the
  search for the parent 256 runs at depth 256, and puts the node 257 at depth 257; the
  search for the identifier 257, which is present in the tree, returns the out of
  bounds error.
\<close>

theorem find_beyond_depth_bound_counterexample:
  "build (flat_index (chain 257)) = Inr (built_state (chain_from 1 257) [] (Some 1))
   \<and> tree_node_at (item_node 0 (chain_from 1 257)) (replicate 257 0) = Some (item_node 257 [])
   \<and> libpff_item_tree_get_node_by_identifier
         (item_tree (built_state (chain_from 1 257) [] (Some 1))) 257 (Some None) =
       Inl Recursion_Depth_Out_Of_Bounds"
proof -
  have built: "build (flat_index (chain 257)) = Inr (built_state (chain_from 1 257) [] (Some 1))"
    by (rule build_chain) simp_all
  have "tree_node_at (Tree_Node (Some (libpff_item_descriptor_initialize 0 0 0 0))
      (chain_from 1 257)) (replicate (Suc 256) 0) =
      Some (item_node (of_nat (1 + 256)) (chain_from (Suc (1 + 256)) (257 - Suc 256)))"
    by (rule at_chain) simp
  then have present: "tree_node_at (item_node 0 (chain_from 1 257)) (replicate 257 0) =
      Some (item_node 257 [])"
    by (simp add: item_node_def del: chain_from.simps(2) replicate.simps)
  have distinct: "\<forall>m. 0 + int m + 1 \<le> LIBPFF_MAXIMUM_ITEM_TREE_RECURSION_DEPTH
      \<longrightarrow> (of_nat (1 + m) :: 32 word) \<noteq> 257"
  proof (intro allI impI)
    fix m
    assume "0 + int m + 1 \<le> LIBPFF_MAXIMUM_ITEM_TREE_RECURSION_DEPTH"
    then have "1 + m < 257" by (simp add: LIBPFF_MAXIMUM_ITEM_TREE_RECURSION_DEPTH_def)
    then have "(of_nat (1 + m) :: 32 word) \<noteq> of_nat 257"
      by (subst of_nat_32_eq) simp_all
    then show "(of_nat (1 + m) :: 32 word) \<noteq> 257" by simp
  qed
  have "get_tree_node_by_identifier_sub_nodes (chain_from 1 257) 0 257 (Some None) 0 =
      Inl Recursion_Depth_Out_Of_Bounds"
    using distinct
    by (intro search_chain_too_deep) (simp_all add: LIBPFF_MAXIMUM_ITEM_TREE_RECURSION_DEPTH_def)
  then have "libpff_item_tree_get_node_by_identifier
      (item_tree (built_state (chain_from 1 257) [] (Some 1))) 257 (Some None) =
      Inl Recursion_Depth_Out_Of_Bounds"
    by (simp add: libpff_item_tree_get_node_by_identifier_def built_state_def item_node_def
          libpff_item_descriptor_initialize_def LIBPFF_MAXIMUM_ITEM_TREE_RECURSION_DEPTH_def
          del: chain_from.simps(2))
  with built present show ?thesis by blast
qed

section \<open>The order of the leaves\<close>

text \<open>
  C8. A build is a function of the answers of the index and of the tree, orphan node
  list and root folder slot it is given, so two builds from the same start give the
  same result. The tree does not depend on whether a parent was built by the walk or
  by a read-ahead when the parent is not the root folder: the leaves (1, 1), (2, 1) and
  (4, 2) give the same tree in the order (1, 1), (4, 2), (2, 1). In the order (4, 2),
  (2, 1), (1, 1) the read-aheads build the leaf (2, 1) and then the root folder (1, 1);
  the walk skips (2, 1) and then fails on (1, 1) with the root folder already set
  error, where the same tree was to be built.
\<close>

theorem read_ahead_order:
  "build (flat_index [leaf 1 1, leaf 2 1, leaf 4 2]) =
     Inr (built_state [item_node 1 [item_node 2 [item_node 4 []]]] [] (Some 1))
   \<and> build (flat_index [leaf 1 1, leaf 4 2, leaf 2 1]) =
     Inr (built_state [item_node 1 [item_node 2 [item_node 4 []]]] [] (Some 1))
   \<and> build (flat_index [leaf 4 2, leaf 2 1, leaf 1 1]) = Inl Root_Folder_Already_Set
   \<and> build (flat_index [leaf 1 1, leaf 2 1, leaf 3 1, leaf 4 2]) =
     Inr (built_state [item_node 1 [item_node 2 [item_node 4 []], item_node 3 []]] [] (Some 1))"
  by code_simp

end
